theory Spec2Isabelle
  imports Main "HOL-Library.Char_ord" "HOL-Library.List_Lexorder" "HOL-Library.Multiset"
begin

section \<open>Python and NumPy operations used by environments/list\_env.py\<close>

text \<open>
  Exceptions of the source are values: a computation that may raise returns
  \<open>error + 'a\<close>, with \<open>Inl\<close> the exception.
\<close>

datatype error =
  AssertionError | IndexError | KeyError | NameError | NotImplementedError | TypeError | ValueError

text \<open>
  Indexing a one-dimensional NumPy array with a Python integer: an index in
  \<open>[0, n)\<close> is taken as it is, an index in \<open>[-n, 0)\<close> counts from the end, every
  other index raises IndexError.
\<close>

definition np_index :: "int list \<Rightarrow> int \<Rightarrow> error + nat" where
  "np_index arr i =
     (let n = int (length arr) in
      if 0 \<le> i \<and> i < n then Inr (nat i)
      else if - n \<le> i \<and> i < 0 then Inr (nat (n + i))
      else Inl IndexError)"

definition np_get :: "int list \<Rightarrow> int \<Rightarrow> error + int" where
  "np_get arr i = (case np_index arr i of Inl e \<Rightarrow> Inl e | Inr k \<Rightarrow> Inr (arr ! k))"

text \<open>
  The statement \<^verbatim>\<open>arr[[a, b]] = arr[[b, a]]\<close>: the right-hand side is read
  first into a fresh array, then its two values are stored at \<open>a\<close> and at \<open>b\<close>
  in this order. With \<open>a = b\<close> the array is left as it was.
\<close>

definition np_swap :: "int list \<Rightarrow> int \<Rightarrow> int \<Rightarrow> error + int list" where
  "np_swap arr a b =
     (case np_index arr b of Inl e \<Rightarrow> Inl e | Inr kb \<Rightarrow>
      (case np_index arr a of Inl e \<Rightarrow> Inl e | Inr ka \<Rightarrow>
         Inr (arr[ka := arr ! kb, kb := arr ! ka])))"

text \<open>\<^verbatim>\<open>list.pop()\<close>: the last element and the list without it; IndexError on the empty list.\<close>

definition list_pop :: "int list \<Rightarrow> error + int \<times> int list" where
  "list_pop st = (if st = [] then Inl IndexError else Inr (last st, butlast st))"

section \<open>The environment objects\<close>

text \<open>
  \<open>ListEnv\<close> holds the list length, the scratchpad, two pointers and the reset flag;
  \<open>QuickSortListEnv\<close> has a third pointer and the stack in addition. The two classes
  repeat the pointer moves, \<^verbatim>\<open>_stop\<close> and \<^verbatim>\<open>_swap\<close> word for word, so one definition
  over the record scheme serves both. Where the classes differ, the QuickSortListEnv
  method carries the prefix \<open>qs_\<close>.
\<close>

record list_env =
  length_env :: int
  scratchpad_ints :: "int list"
  p1_pos :: int
  p2_pos :: int
  has_been_reset :: bool

record quicksort_list_env = list_env +
  p3_pos :: int
  prog_stack :: "int list"

text \<open>States as \<^verbatim>\<open>get_state\<close> returns them and as the postconditions take them.\<close>

type_synonym state2 = "int list \<times> int \<times> int"
type_synonym state3 = "int list \<times> int \<times> int \<times> int \<times> int list"

definition get_state :: "list_env \<Rightarrow> error + state2" where
  "get_state self =
     (if has_been_reset self then Inr (scratchpad_ints self, p1_pos self, p2_pos self)
      else Inl AssertionError)"

definition qs_get_state :: "quicksort_list_env \<Rightarrow> error + state3" where
  "qs_get_state self =
     (if has_been_reset self
      then Inr (scratchpad_ints self, p1_pos self, p2_pos self, p3_pos self, prog_stack self)
      else Inl AssertionError)"

subsection \<open>Primitive actions and their preconditions\<close>

definition ptr_1_left :: "'a list_env_scheme \<Rightarrow> 'a list_env_scheme" where
  "ptr_1_left self = (if p1_pos self > 0 then self\<lparr>p1_pos := p1_pos self - 1\<rparr> else self)"

definition ptr_1_left_precondition :: "'a list_env_scheme \<Rightarrow> bool" where
  "ptr_1_left_precondition self = (p1_pos self > 0)"

definition stop :: "'a list_env_scheme \<Rightarrow> 'a list_env_scheme" where
  "stop self = self"

definition stop_precondition :: "'a list_env_scheme \<Rightarrow> bool" where
  "stop_precondition self = True"

definition ptr_2_left :: "'a list_env_scheme \<Rightarrow> 'a list_env_scheme" where
  "ptr_2_left self = (if p2_pos self > 0 then self\<lparr>p2_pos := p2_pos self - 1\<rparr> else self)"

definition ptr_2_left_precondition :: "'a list_env_scheme \<Rightarrow> bool" where
  "ptr_2_left_precondition self = (p2_pos self > 0)"

definition ptr_1_right :: "'a list_env_scheme \<Rightarrow> 'a list_env_scheme" where
  "ptr_1_right self =
     (if p1_pos self < length_env self - 1 then self\<lparr>p1_pos := p1_pos self + 1\<rparr> else self)"

definition ptr_1_right_precondition :: "'a list_env_scheme \<Rightarrow> bool" where
  "ptr_1_right_precondition self = (p1_pos self < length_env self - 1)"

definition ptr_2_right :: "'a list_env_scheme \<Rightarrow> 'a list_env_scheme" where
  "ptr_2_right self =
     (if p2_pos self < length_env self - 1 then self\<lparr>p2_pos := p2_pos self + 1\<rparr> else self)"

definition ptr_2_right_precondition :: "'a list_env_scheme \<Rightarrow> bool" where
  "ptr_2_right_precondition self = (p2_pos self < length_env self - 1)"

definition ptr_3_left :: "quicksort_list_env \<Rightarrow> quicksort_list_env" where
  "ptr_3_left self = (if p3_pos self > 0 then self\<lparr>p3_pos := p3_pos self - 1\<rparr> else self)"

definition ptr_3_left_precondition :: "quicksort_list_env \<Rightarrow> bool" where
  "ptr_3_left_precondition self = (p3_pos self > 0)"

definition ptr_3_right :: "quicksort_list_env \<Rightarrow> quicksort_list_env" where
  "ptr_3_right self =
     (if p3_pos self < length_env self - 1 then self\<lparr>p3_pos := p3_pos self + 1\<rparr> else self)"

definition ptr_3_right_precondition :: "quicksort_list_env \<Rightarrow> bool" where
  "ptr_3_right_precondition self = (p3_pos self < length_env self - 1)"

definition swap :: "'a list_env_scheme \<Rightarrow> error + 'a list_env_scheme" where
  "swap self =
     (case np_swap (scratchpad_ints self) (p1_pos self) (p2_pos self) of
        Inl e \<Rightarrow> Inl e
      | Inr arr \<Rightarrow> Inr (self\<lparr>scratchpad_ints := arr\<rparr>))"

definition swap_precondition :: "'a list_env_scheme \<Rightarrow> bool" where
  "swap_precondition self = (p1_pos self \<noteq> p2_pos self)"

definition swap_2 :: "quicksort_list_env \<Rightarrow> error + quicksort_list_env" where
  "swap_2 self =
     (case np_swap (scratchpad_ints self) (p2_pos self) (p3_pos self) of
        Inl e \<Rightarrow> Inl e
      | Inr arr \<Rightarrow> Inr (self\<lparr>scratchpad_ints := arr\<rparr>))"

definition swap_2_precondition :: "quicksort_list_env \<Rightarrow> bool" where
  "swap_2_precondition self = (p2_pos self \<noteq> p3_pos self)"

definition swap_3 :: "quicksort_list_env \<Rightarrow> error + quicksort_list_env" where
  "swap_3 self =
     (case np_swap (scratchpad_ints self) (p3_pos self) (p1_pos self) of
        Inl e \<Rightarrow> Inl e
      | Inr arr \<Rightarrow> Inr (self\<lparr>scratchpad_ints := arr\<rparr>))"

definition swap_3_precondition :: "quicksort_list_env \<Rightarrow> bool" where
  "swap_3_precondition self = (p3_pos self \<noteq> p1_pos self)"

definition push_precondition :: "quicksort_list_env \<Rightarrow> bool" where
  "push_precondition self = True"

text \<open>
  \<^verbatim>\<open>_push\<close>: the assertion, then the two guarded groups of three appends.
\<close>

definition push :: "quicksort_list_env \<Rightarrow> error + quicksort_list_env" where
  "push self =
     (if \<not> push_precondition self then Inl AssertionError
      else
        let st1 = (if p3_pos self + 1 < p2_pos self
                   then prog_stack self @ [p3_pos self + 1, p2_pos self, p3_pos self + 1]
                   else prog_stack self);
            st2 = (if p3_pos self - 1 > 0
                   then st1 @ [p1_pos self, p3_pos self - 1, p1_pos self]
                   else st1)
        in Inr (self\<lparr>prog_stack := st2\<rparr>))"

text \<open>
  \<^verbatim>\<open>_pop\<close>: three \<^verbatim>\<open>pop()\<close> calls under the length test, stored to \<open>p1\<close>, \<open>p2\<close>, \<open>p3\<close>
  in this order.
\<close>

definition pop :: "quicksort_list_env \<Rightarrow> error + quicksort_list_env" where
  "pop self =
     (if length (prog_stack self) \<ge> 3 then
        (case list_pop (prog_stack self) of Inl e \<Rightarrow> Inl e | Inr (a, st1) \<Rightarrow>
         (case list_pop st1 of Inl e \<Rightarrow> Inl e | Inr (b, st2) \<Rightarrow>
          (case list_pop st2 of Inl e \<Rightarrow> Inl e | Inr (c, st3) \<Rightarrow>
             Inr (self\<lparr>p1_pos := a, p2_pos := b, p3_pos := c, prog_stack := st3\<rparr>))))
      else Inr self)"

definition pop_precondition :: "quicksort_list_env \<Rightarrow> bool" where
  "pop_precondition self = (length (prog_stack self) \<ge> 3)"

section \<open>The postcondition oracle\<close>

text \<open>
  \<^verbatim>\<open>range(a, b)\<close> on Python integers, and the slice \<^verbatim>\<open>xs[lo:hi]\<close> with both bounds
  given: a negative bound counts from the end, and both are clamped to the list.
\<close>

definition py_range :: "int \<Rightarrow> int \<Rightarrow> int list" where
  "py_range a b = [a..b - 1]"

definition py_slice :: "'a list \<Rightarrow> int \<Rightarrow> int \<Rightarrow> 'a list" where
  "py_slice xs lo hi =
     (let n = int (length xs);
          a = (if lo < 0 then max 0 (n + lo) else min n lo);
          b = (if hi < 0 then max 0 (n + hi) else min n hi)
      in drop (nat a) (take (nat b) xs))"

text \<open>
  \<^verbatim>\<open>xs <= ys\<close> on one-dimensional arrays: element by element when the lengths agree,
  an array of length one is broadcast, any other pair of lengths raises ValueError.
  \<^verbatim>\<open>np.all\<close> is the conjunction of the elements.
\<close>

definition np_le :: "int list \<Rightarrow> int list \<Rightarrow> error + bool list" where
  "np_le xs ys =
     (if length xs = length ys then Inr (map (\<lambda>(x, y). x \<le> y) (zip xs ys))
      else if length xs = 1 then Inr (map (\<lambda>y. hd xs \<le> y) ys)
      else if length ys = 1 then Inr (map (\<lambda>x. x \<le> hd ys) xs)
      else Inl ValueError)"

definition np_all :: "bool list \<Rightarrow> bool" where
  "np_all bs = list_all (\<lambda>b. b) bs"

subsection \<open>ListEnv\<close>

text \<open>\<^verbatim>\<open>np.array_equal\<close> on two one-dimensional arrays is equality of the lists.\<close>

definition compare_state :: "state2 \<Rightarrow> state2 \<Rightarrow> bool" where
  "compare_state state1 state2 =
     (True \<and> fst state1 = fst state2
           \<and> fst (snd state1) = fst (snd state2)
           \<and> snd (snd state1) = snd (snd state2))"

definition lshift_postcondition :: "int \<Rightarrow> state2 \<Rightarrow> state2 \<Rightarrow> bool" where
  "lshift_postcondition L init_state state =
     (case init_state of (init_scratchpad_ints, init_p1_pos, init_p2_pos) \<Rightarrow>
      case state of (scratchpad_ints', p1_pos', p2_pos') \<Rightarrow>
        (init_scratchpad_ints = scratchpad_ints')
        \<and> (if init_p1_pos > 0 then p1_pos' = init_p1_pos - 1 else p1_pos' = init_p1_pos)
        \<and> (if init_p2_pos > 0 then p2_pos' = init_p2_pos - 1 else p2_pos' = init_p2_pos))"

definition rshift_postcondition :: "int \<Rightarrow> state2 \<Rightarrow> state2 \<Rightarrow> bool" where
  "rshift_postcondition L init_state state =
     (case init_state of (init_scratchpad_ints, init_p1_pos, init_p2_pos) \<Rightarrow>
      case state of (scratchpad_ints', p1_pos', p2_pos') \<Rightarrow>
        (init_scratchpad_ints = scratchpad_ints')
        \<and> (if init_p1_pos < L - 1 then p1_pos' = init_p1_pos + 1 else p1_pos' = init_p1_pos)
        \<and> (if init_p2_pos < L - 1 then p2_pos' = init_p2_pos + 1 else p2_pos' = init_p2_pos))"

definition reset_postcondition :: "int \<Rightarrow> state2 \<Rightarrow> state2 \<Rightarrow> bool" where
  "reset_postcondition L init_state state =
     (case init_state of (init_scratchpad_ints, init_p1_pos, init_p2_pos) \<Rightarrow>
      case state of (scratchpad_ints', p1_pos', p2_pos') \<Rightarrow>
        (init_scratchpad_ints = scratchpad_ints') \<and> (p1_pos' = 0 \<and> p2_pos' = 0))"

definition bubblesort_postcondition :: "int \<Rightarrow> state2 \<Rightarrow> state2 \<Rightarrow> error + bool" where
  "bubblesort_postcondition L init_state state =
     (case state of (scratchpad_ints', p1_pos', p2_pos') \<Rightarrow>
      case np_le (py_slice scratchpad_ints' 0 (L - 1)) (py_slice scratchpad_ints' 1 L) of
        Inl e \<Rightarrow> Inl e
      | Inr bs \<Rightarrow> Inr (np_all bs))"

text \<open>
  The loop of \<^verbatim>\<open>_bubble_postcondition\<close> over the indices it is given; the comparison
  reads \<^verbatim>\<open>arr[idx+1]\<close> first.
\<close>

fun bubble_loop :: "int list \<Rightarrow> int list \<Rightarrow> error + int list" where
  "bubble_loop [] arr = Inr arr"
| "bubble_loop (idx # idxs) arr =
     (case np_get arr (idx + 1) of Inl e \<Rightarrow> Inl e | Inr a \<Rightarrow>
      (case np_get arr idx of Inl e \<Rightarrow> Inl e | Inr b \<Rightarrow>
         if a < b
         then (case np_swap arr idx (idx + 1) of
                 Inl e \<Rightarrow> Inl e
               | Inr arr' \<Rightarrow> bubble_loop idxs arr')
         else bubble_loop idxs arr))"

definition bubble_postcondition :: "int \<Rightarrow> state2 \<Rightarrow> state2 \<Rightarrow> error + bool" where
  "bubble_postcondition L init_state state =
     (case init_state of (new_scratchpad_ints, new_p1_pos, new_p2_pos) \<Rightarrow>
      case bubble_loop (py_range 0 (L - 1)) new_scratchpad_ints of
        Inl e \<Rightarrow> Inl e
      | Inr arr \<Rightarrow> Inr (compare_state state (arr, L - 1, L - 1)))"

text \<open>
  The comparison-swap reference of \<^verbatim>\<open>_compswap_postcondition\<close>, the same in both
  classes but for the fields carried along.
\<close>

definition compswap_reference :: "int \<Rightarrow> state2 \<Rightarrow> error + state2" where
  "compswap_reference L init_state =
     (case init_state of (new_scratchpad_ints, new_p1_pos, p2) \<Rightarrow>
      let new_p2_pos = (if new_p1_pos = p2 \<and> p2 < L - 1 then p2 + 1 else p2);
          idx_left = min new_p1_pos new_p2_pos;
          idx_right = max new_p1_pos new_p2_pos
      in case np_get new_scratchpad_ints idx_left of Inl e \<Rightarrow> Inl e | Inr a \<Rightarrow>
         (case np_get new_scratchpad_ints idx_right of Inl e \<Rightarrow> Inl e | Inr b \<Rightarrow>
            if a > b
            then (case np_swap new_scratchpad_ints idx_left idx_right of
                    Inl e \<Rightarrow> Inl e
                  | Inr arr \<Rightarrow> Inr (arr, new_p1_pos, new_p2_pos))
            else Inr (new_scratchpad_ints, new_p1_pos, new_p2_pos)))"

definition compswap_postcondition :: "int \<Rightarrow> state2 \<Rightarrow> state2 \<Rightarrow> error + bool" where
  "compswap_postcondition L init_state state =
     (case compswap_reference L init_state of
        Inl e \<Rightarrow> Inl e
      | Inr new_state \<Rightarrow> Inr (compare_state state new_state))"

subsection \<open>QuickSortListEnv\<close>

definition qs_compare_state :: "state3 \<Rightarrow> state3 \<Rightarrow> bool" where
  "qs_compare_state state1 state2 =
     (case state1 of (a1, b1, c1, d1, e1) \<Rightarrow>
      case state2 of (a2, b2, c2, d2, e2) \<Rightarrow>
        True \<and> a1 = a2 \<and> b1 = b2 \<and> c1 = c2 \<and> d1 = d2 \<and> e1 = e2)"

definition qs_compswap_reference :: "int \<Rightarrow> state3 \<Rightarrow> error + state3" where
  "qs_compswap_reference L init_state =
     (case init_state of (new_scratchpad_ints, new_p1_pos, p2, new_p3_pos, new_stack) \<Rightarrow>
      let new_p2_pos = (if new_p1_pos = p2 \<and> p2 < L - 1 then p2 + 1 else p2);
          idx_left = min new_p1_pos new_p2_pos;
          idx_right = max new_p1_pos new_p2_pos
      in case np_get new_scratchpad_ints idx_left of Inl e \<Rightarrow> Inl e | Inr a \<Rightarrow>
         (case np_get new_scratchpad_ints idx_right of Inl e \<Rightarrow> Inl e | Inr b \<Rightarrow>
            if a > b
            then (case np_swap new_scratchpad_ints idx_left idx_right of
                    Inl e \<Rightarrow> Inl e
                  | Inr arr \<Rightarrow> Inr (arr, new_p1_pos, new_p2_pos, new_p3_pos, new_stack))
            else Inr (new_scratchpad_ints, new_p1_pos, new_p2_pos, new_p3_pos, new_stack)))"

text \<open>
  \<^verbatim>\<open>_compswap_postcondition\<close> of QuickSortListEnv compares the reference with the
  snapshot, not with the resulting state; the method is in no dispatch table.
\<close>

definition qs_compswap_postcondition :: "int \<Rightarrow> state3 \<Rightarrow> state3 \<Rightarrow> error + bool" where
  "qs_compswap_postcondition L init_state state =
     (case qs_compswap_reference L init_state of
        Inl e \<Rightarrow> Inl e
      | Inr new_state \<Rightarrow> Inr (qs_compare_state new_state init_state))"

text \<open>
  \<^verbatim>\<open>_lshift_postcondition\<close> of QuickSortListEnv: the second statement assigns
  \<^verbatim>\<open>bool = (init_stack == stack)\<close> and so drops the result of \<^verbatim>\<open>np.array_equal\<close>.
\<close>

definition qs_lshift_postcondition :: "int \<Rightarrow> state3 \<Rightarrow> state3 \<Rightarrow> bool" where
  "qs_lshift_postcondition L init_state state =
     (case init_state of (init_scratchpad_ints, init_p1_pos, init_p2_pos, init_p3_pos, init_stack) \<Rightarrow>
      case state of (scratchpad_ints', p1_pos', p2_pos', p3_pos', stack) \<Rightarrow>
        let bool0 = (init_scratchpad_ints = scratchpad_ints');
            bool1 = (init_stack = stack)
        in bool1
           \<and> (if init_p1_pos > 0 then p1_pos' = init_p1_pos - 1 else p1_pos' = init_p1_pos)
           \<and> (if init_p2_pos > 0 then p2_pos' = init_p2_pos - 1 else p2_pos' = init_p2_pos)
           \<and> (if init_p3_pos > 0 then p3_pos' = init_p3_pos - 1 else p3_pos' = init_p3_pos))"

definition qs_rshift_postcondition :: "int \<Rightarrow> state3 \<Rightarrow> state3 \<Rightarrow> bool" where
  "qs_rshift_postcondition L init_state state =
     (case init_state of (init_scratchpad_ints, init_p1_pos, init_p2_pos, init_p3_pos, init_stack) \<Rightarrow>
      case state of (scratchpad_ints', p1_pos', p2_pos', p3_pos', stack) \<Rightarrow>
        (init_scratchpad_ints = scratchpad_ints')
        \<and> (init_stack = stack)
        \<and> (if init_p1_pos < L - 1 then p1_pos' = init_p1_pos + 1 else p1_pos' = init_p1_pos)
        \<and> (if init_p2_pos < L - 1 then p2_pos' = init_p2_pos + 1 else p2_pos' = init_p2_pos)
        \<and> (if init_p3_pos < L - 1 then p3_pos' = init_p3_pos + 1 else p3_pos' = init_p3_pos))"

definition qs_reset_postcondition :: "int \<Rightarrow> state3 \<Rightarrow> state3 \<Rightarrow> bool" where
  "qs_reset_postcondition L init_state state =
     (case init_state of (init_scratchpad_ints, init_p1_pos, init_p2_pos, init_p3_pos, init_stack) \<Rightarrow>
      case state of (scratchpad_ints', p1_pos', p2_pos', p3_pos', stack) \<Rightarrow>
        (init_scratchpad_ints = scratchpad_ints')
        \<and> (init_stack = stack)
        \<and> (p1_pos' = 0 \<and> p2_pos' = 0 \<and> p3_pos' = 0))"

definition qs_bubblesort_postcondition :: "int \<Rightarrow> state3 \<Rightarrow> state3 \<Rightarrow> error + bool" where
  "qs_bubblesort_postcondition L init_state state =
     (case state of (scratchpad_ints', p1_pos', p2_pos', p3_pos', stack) \<Rightarrow>
      case np_le (py_slice scratchpad_ints' 0 (L - 1)) (py_slice scratchpad_ints' 1 L) of
        Inl e \<Rightarrow> Inl e
      | Inr bs \<Rightarrow> Inr (np_all bs))"

definition quicksort_postcondition :: "int \<Rightarrow> state3 \<Rightarrow> state3 \<Rightarrow> error + bool" where
  "quicksort_postcondition L init_state state =
     (case state of (scratchpad_ints', p1_pos', p2_pos', p3_pos', stack) \<Rightarrow>
      case np_le (py_slice scratchpad_ints' 0 (L - 1)) (py_slice scratchpad_ints' 1 L) of
        Inl e \<Rightarrow> Inl e
      | Inr bs \<Rightarrow> Inr (np_all bs))"

text \<open>
  \<^verbatim>\<open>_partition(arr, l, h, j)\<close>, bound in the class body: the pivot \<^verbatim>\<open>x = arr[h]\<close> is read
  once, the \<^verbatim>\<open>while\<close> loop scans with \<open>j\<close>, the last swap puts the pivot at \<open>l\<close>; the
  result is \<^verbatim>\<open>(arr, temp_l, h, l)\<close>.
\<close>

function partition_while :: "int list \<Rightarrow> int \<Rightarrow> int \<Rightarrow> int \<Rightarrow> int \<Rightarrow> error + int list \<times> int" where
  "partition_while arr l h j x =
     (if j < h then
        (case np_get arr j of Inl e \<Rightarrow> Inl e | Inr a \<Rightarrow>
           if a \<le> x
           then (case np_swap arr j l of
                   Inl e \<Rightarrow> Inl e
                 | Inr arr' \<Rightarrow> partition_while arr' (l + 1) h (j + 1) x)
           else partition_while arr l h (j + 1) x)
      else Inr (arr, l))"
  by pat_completeness auto
termination
  by (relation "measure (\<lambda>(arr, l, h, j, x). nat (h - j))") auto

definition partition_arr :: "int list \<Rightarrow> int \<Rightarrow> int \<Rightarrow> int \<Rightarrow> error + int list \<times> int \<times> int \<times> int" where
  "partition_arr arr l h j =
     (case np_get arr h of Inl e \<Rightarrow> Inl e | Inr x \<Rightarrow>
      (case partition_while arr l h j x of Inl e \<Rightarrow> Inl e | Inr (arr1, l1) \<Rightarrow>
       (case np_swap arr1 l1 h of Inl e \<Rightarrow> Inl e | Inr arr2 \<Rightarrow>
          Inr (arr2, l, h, l1))))"

text \<open>
  The loop of \<^verbatim>\<open>_compswap_partition_postcondition\<close>: \<^verbatim>\<open>range(new_p1_pos, new_p2_pos)\<close>
  is built once, before \<^verbatim>\<open>new_p1_pos\<close> is incremented in the body.
\<close>

fun compswap_partition_loop ::
  "int list \<Rightarrow> int \<Rightarrow> int list \<Rightarrow> int \<Rightarrow> error + int list \<times> int" where
  "compswap_partition_loop [] new_p2_pos arr new_p1_pos = Inr (arr, new_p1_pos)"
| "compswap_partition_loop (idx # idxs) new_p2_pos arr new_p1_pos =
     (case np_get arr idx of Inl e \<Rightarrow> Inl e | Inr a \<Rightarrow>
      (case np_get arr new_p2_pos of Inl e \<Rightarrow> Inl e | Inr b \<Rightarrow>
         if a < b
         then (case np_swap arr (new_p1_pos + 1) idx of
                 Inl e \<Rightarrow> Inl e
               | Inr arr' \<Rightarrow> compswap_partition_loop idxs new_p2_pos arr' (new_p1_pos + 1))
         else compswap_partition_loop idxs new_p2_pos arr new_p1_pos))"

definition compswap_partition_postcondition :: "int \<Rightarrow> state3 \<Rightarrow> state3 \<Rightarrow> error + bool" where
  "compswap_partition_postcondition L init_state state =
     (case init_state of (new_scratchpad_ints, p1, new_p2_pos, p3, stack) \<Rightarrow>
      case compswap_partition_loop (py_range p1 new_p2_pos) new_p2_pos new_scratchpad_ints p1 of
        Inl e \<Rightarrow> Inl e
      | Inr (arr, new_p1_pos) \<Rightarrow>
          Inr (qs_compare_state state (arr, new_p1_pos, new_p2_pos, new_p2_pos - 1, stack)))"

text \<open>
  \<^verbatim>\<open>_partition_postcondition\<close> calls the bare name \<^verbatim>\<open>_partition\<close> with one argument.
  A name in a method body is looked up among the locals of the method, then the
  globals of the module, then the builtins; the namespace of the class body, where
  \<^verbatim>\<open>_partition\<close> is bound, is not searched. The module binds the names below and no
  other, so the lookup raises NameError before anything is computed. Were the name
  bound to the function, the call with one argument for four parameters would raise
  TypeError.
\<close>

definition module_globals :: "string list" where
  "module_globals =
     [''np'', ''torch'', ''nn'', ''F'', ''OrderedDict'', ''Environment'',
      ''ListEnvEncoder'', ''ListEnv'', ''QuickSortListEnv'']"

definition partition_postcondition :: "int \<Rightarrow> state3 \<Rightarrow> state3 \<Rightarrow> error + bool" where
  "partition_postcondition L init_state state =
     (if ''_partition'' \<in> set module_globals then Inl TypeError else Inl NameError)"

subsection \<open>Dispatch\<close>

text \<open>The dictionaries \<^verbatim>\<open>prog_to_postcondition\<close> of the two constructors.\<close>

definition prog_to_postcondition ::
  "bool \<Rightarrow> string \<Rightarrow> (int \<Rightarrow> state2 \<Rightarrow> state2 \<Rightarrow> error + bool) option" where
  "prog_to_postcondition hierarchy =
     (if hierarchy then
        map_of [(''RSHIFT'', \<lambda>L s t. Inr (rshift_postcondition L s t)),
                (''LSHIFT'', \<lambda>L s t. Inr (lshift_postcondition L s t)),
                (''COMPSWAP'', compswap_postcondition),
                (''RESET'', \<lambda>L s t. Inr (reset_postcondition L s t)),
                (''BUBBLE'', bubble_postcondition),
                (''BUBBLESORT'', bubblesort_postcondition)]
      else map_of [(''BUBBLESORT'', bubblesort_postcondition)])"

definition qs_prog_to_postcondition ::
  "bool \<Rightarrow> string \<Rightarrow> (int \<Rightarrow> state3 \<Rightarrow> state3 \<Rightarrow> error + bool) option" where
  "qs_prog_to_postcondition hierarchy =
     (if hierarchy then
        map_of [(''RSHIFT'', \<lambda>L s t. Inr (qs_rshift_postcondition L s t)),
                (''LSHIFT'', \<lambda>L s t. Inr (qs_lshift_postcondition L s t)),
                (''COMPSWAP_PARTITION'', compswap_partition_postcondition),
                (''RESET'', \<lambda>L s t. Inr (qs_reset_postcondition L s t)),
                (''PARTITION'', partition_postcondition),
                (''QUICKSORT'', quicksort_postcondition)]
      else map_of [(''BUBBLESORT'', qs_bubblesort_postcondition)])"

text \<open>
  Modelled from the spec: \<^verbatim>\<open>check_postcondition\<close> is a method of the base class
  \<^verbatim>\<open>Environment\<close> (module environments.environment, not among the sources). The spec
  gives \<^verbatim>\<open>check_postcondition(program_name, snapshot, resulting_state) -> bool\<close>; it is
  taken to look the program up in \<^verbatim>\<open>prog_to_postcondition\<close> and to call what it finds.
\<close>

definition check_postcondition ::
  "bool \<Rightarrow> int \<Rightarrow> string \<Rightarrow> state2 \<Rightarrow> state2 \<Rightarrow> error + bool" where
  "check_postcondition hierarchy L name init_state state =
     (case prog_to_postcondition hierarchy name of
        None \<Rightarrow> Inl KeyError
      | Some f \<Rightarrow> f L init_state state)"

definition qs_check_postcondition ::
  "bool \<Rightarrow> int \<Rightarrow> string \<Rightarrow> state3 \<Rightarrow> state3 \<Rightarrow> error + bool" where
  "qs_check_postcondition hierarchy L name init_state state =
     (case qs_prog_to_postcondition hierarchy name of
        None \<Rightarrow> Inl KeyError
      | Some f \<Rightarrow> f L init_state state)"

section \<open>Preconditions of the composite programs, dispatch of the primitives\<close>

definition compswap_precondition :: "'a list_env_scheme \<Rightarrow> bool" where
  "compswap_precondition self =
     (p1_pos self < length_env self - 1
      \<and> (p2_pos self = p1_pos self \<or> p2_pos self = p1_pos self + 1))"

definition lshift_precondition :: "list_env \<Rightarrow> bool" where
  "lshift_precondition self = (p1_pos self > 0 \<or> p2_pos self > 0)"

definition rshift_precondition :: "list_env \<Rightarrow> bool" where
  "rshift_precondition self =
     (p1_pos self < length_env self - 1 \<or> p2_pos self < length_env self - 1)"

definition bubble_precondition :: "'a list_env_scheme \<Rightarrow> bool" where
  "bubble_precondition self = (p1_pos self = 0 \<and> (p2_pos self = 0 \<or> p2_pos self = 1))"

definition reset_precondition :: "'a list_env_scheme \<Rightarrow> bool" where
  "reset_precondition self = True"

definition bubblesort_precondition :: "'a list_env_scheme \<Rightarrow> bool" where
  "bubblesort_precondition self = (p1_pos self = 0 \<and> p2_pos self = 0)"

definition qs_lshift_precondition :: "quicksort_list_env \<Rightarrow> bool" where
  "qs_lshift_precondition self = (p1_pos self > 0 \<or> p2_pos self > 0 \<or> p3_pos self > 0)"

definition qs_rshift_precondition :: "quicksort_list_env \<Rightarrow> bool" where
  "qs_rshift_precondition self =
     (p1_pos self < length_env self - 1 \<or> p2_pos self < length_env self - 1
      \<or> p3_pos self < length_env self - 1)"

definition compswap_partition_precondition :: "quicksort_list_env \<Rightarrow> bool" where
  "compswap_partition_precondition self =
     (p1_pos self \<le> p2_pos self \<and> p3_pos self = p1_pos self)"

definition partition_precondition :: "quicksort_list_env \<Rightarrow> bool" where
  "partition_precondition self = (p1_pos self \<le> p2_pos self \<and> p3_pos self = p1_pos self)"

definition quicksort_precondition :: "quicksort_list_env \<Rightarrow> bool" where
  "quicksort_precondition self =
     (p1_pos self = 0 \<and> p2_pos self = length_env self - 1 \<and> p3_pos self = 0)"

text \<open>
  The dictionaries \<^verbatim>\<open>prog_to_func\<close> and \<^verbatim>\<open>prog_to_precondition\<close> of the two
  constructors. A primitive that cannot raise is wrapped in \<open>Inr\<close>.
\<close>

definition prog_to_func :: "bool \<Rightarrow> string \<Rightarrow> (list_env \<Rightarrow> error + list_env) option" where
  "prog_to_func hierarchy =
     map_of [(''STOP'', \<lambda>self. Inr (stop self)),
             (''PTR_1_LEFT'', \<lambda>self. Inr (ptr_1_left self)),
             (''PTR_2_LEFT'', \<lambda>self. Inr (ptr_2_left self)),
             (''PTR_1_RIGHT'', \<lambda>self. Inr (ptr_1_right self)),
             (''PTR_2_RIGHT'', \<lambda>self. Inr (ptr_2_right self)),
             (''SWAP'', swap)]"

definition prog_to_precondition :: "bool \<Rightarrow> string \<Rightarrow> (list_env \<Rightarrow> bool) option" where
  "prog_to_precondition hierarchy =
     (if hierarchy then
        map_of [(''STOP'', stop_precondition),
                (''RSHIFT'', rshift_precondition),
                (''LSHIFT'', lshift_precondition),
                (''COMPSWAP'', compswap_precondition),
                (''RESET'', reset_precondition),
                (''BUBBLE'', bubble_precondition),
                (''BUBBLESORT'', bubblesort_precondition),
                (''PTR_1_LEFT'', ptr_1_left_precondition),
                (''PTR_2_LEFT'', ptr_2_left_precondition),
                (''PTR_1_RIGHT'', ptr_1_right_precondition),
                (''PTR_2_RIGHT'', ptr_2_right_precondition),
                (''SWAP'', swap_precondition)]
      else
        map_of [(''STOP'', stop_precondition),
                (''BUBBLESORT'', bubblesort_precondition),
                (''PTR_1_LEFT'', ptr_1_left_precondition),
                (''PTR_2_LEFT'', ptr_2_left_precondition),
                (''PTR_1_RIGHT'', ptr_1_right_precondition),
                (''PTR_2_RIGHT'', ptr_2_right_precondition),
                (''SWAP'', swap_precondition)])"

definition qs_prog_to_func ::
  "bool \<Rightarrow> string \<Rightarrow> (quicksort_list_env \<Rightarrow> error + quicksort_list_env) option" where
  "qs_prog_to_func hierarchy =
     (if hierarchy then
        map_of [(''STOP'', \<lambda>self. Inr (stop self)),
                (''PTR_1_LEFT'', \<lambda>self. Inr (ptr_1_left self)),
                (''PTR_2_LEFT'', \<lambda>self. Inr (ptr_2_left self)),
                (''PTR_1_RIGHT'', \<lambda>self. Inr (ptr_1_right self)),
                (''PTR_2_RIGHT'', \<lambda>self. Inr (ptr_2_right self)),
                (''PTR_3_LEFT'', \<lambda>self. Inr (ptr_3_left self)),
                (''PTR_3_RIGHT'', \<lambda>self. Inr (ptr_3_right self)),
                (''PUSH'', push),
                (''POP'', pop),
                (''SWAP'', swap),
                (''SWAP_2'', swap_2),
                (''SWAP_3'', swap_3)]
      else
        map_of [(''STOP'', \<lambda>self. Inr (stop self)),
                (''PTR_1_LEFT'', \<lambda>self. Inr (ptr_1_left self)),
                (''PTR_2_LEFT'', \<lambda>self. Inr (ptr_2_left self)),
                (''PTR_1_RIGHT'', \<lambda>self. Inr (ptr_1_right self)),
                (''PTR_2_RIGHT'', \<lambda>self. Inr (ptr_2_right self)),
                (''SWAP'', swap)])"

definition qs_prog_to_precondition ::
  "bool \<Rightarrow> string \<Rightarrow> (quicksort_list_env \<Rightarrow> bool) option" where
  "qs_prog_to_precondition hierarchy =
     (if hierarchy then
        map_of [(''STOP'', stop_precondition),
                (''RSHIFT'', qs_rshift_precondition),
                (''LSHIFT'', qs_lshift_precondition),
                (''PUSH'', push_precondition),
                (''POP'', pop_precondition),
                (''COMPSWAP_PARTITION'', compswap_partition_precondition),
                (''RESET'', reset_precondition),
                (''PARTITION'', partition_precondition),
                (''QUICKSORT'', quicksort_precondition),
                (''PTR_1_LEFT'', ptr_1_left_precondition),
                (''PTR_2_LEFT'', ptr_2_left_precondition),
                (''PTR_1_RIGHT'', ptr_1_right_precondition),
                (''PTR_2_RIGHT'', ptr_2_right_precondition),
                (''PTR_3_LEFT'', ptr_3_left_precondition),
                (''PTR_3_RIGHT'', ptr_3_right_precondition),
                (''SWAP'', swap_precondition),
                (''SWAP_2'', swap_2_precondition),
                (''SWAP_3'', swap_3_precondition)]
      else
        map_of [(''STOP'', stop_precondition),
                (''BUBBLESORT'', bubblesort_precondition),
                (''PTR_1_LEFT'', ptr_1_left_precondition),
                (''PTR_2_LEFT'', ptr_2_left_precondition),
                (''PTR_1_RIGHT'', ptr_1_right_precondition),
                (''PTR_2_RIGHT'', ptr_2_right_precondition),
                (''SWAP'', swap_precondition)])"

text \<open>
  The constructors: the assertion on the length, a scratchpad of zeros, the pointers
  at 0, an empty stack, the flag unset. The argument \<^verbatim>\<open>encoding_dim\<close> is stored and
  read by no method modelled here.
\<close>

definition list_env_init :: "int \<Rightarrow> bool \<Rightarrow> error + list_env" where
  "list_env_init length' hierarchy =
     (if length' > 0
      then Inr \<lparr>length_env = length', scratchpad_ints = replicate (nat length') 0,
                p1_pos = 0, p2_pos = 0, has_been_reset = False\<rparr>
      else Inl AssertionError)"

definition quicksort_list_env_init :: "int \<Rightarrow> bool \<Rightarrow> error + quicksort_list_env" where
  "quicksort_list_env_init length' hierarchy =
     (if length' > 0
      then Inr \<lparr>length_env = length', scratchpad_ints = replicate (nat length') 0,
                p1_pos = 0, p2_pos = 0, has_been_reset = False, p3_pos = 0, prog_stack = []\<rparr>
      else Inl AssertionError)"

section \<open>The task sampler\<close>

text \<open>
  NumPy's generator is outside the repository, so the random source is a parameter:
  \<open>rng k\<close> is the k-th raw draw, and every sampling call reduces the draw at its
  position into the range it was given. Each value of the range is the outcome for
  some source.

  \<^verbatim>\<open>np.random.randint(low, high)\<close> raises ValueError unless \<open>low < high\<close>;
  \<^verbatim>\<open>np.random.randint(high, size=n)\<close> draws \<open>n\<close> values of \<open>[0, high)\<close> and raises
  ValueError unless \<open>0 < high\<close> (and on a negative size);
  \<^verbatim>\<open>np.random.choice(xs)\<close> picks an element of a non-empty list.
\<close>

definition randint :: "(nat \<Rightarrow> nat) \<Rightarrow> nat \<Rightarrow> int \<Rightarrow> int \<Rightarrow> error + int" where
  "randint rng k low high =
     (if low < high then Inr (low + int (rng k) mod (high - low)) else Inl ValueError)"

definition randint_array :: "(nat \<Rightarrow> nat) \<Rightarrow> nat \<Rightarrow> int \<Rightarrow> int \<Rightarrow> error + int list" where
  "randint_array rng k high size' =
     (if high \<le> 0 \<or> size' < 0 then Inl ValueError
      else Inr (map (\<lambda>i. int (rng (k + i)) mod high) [0..<nat size']))"

definition choice :: "(nat \<Rightarrow> nat) \<Rightarrow> nat \<Rightarrow> int list \<Rightarrow> error + int" where
  "choice rng k xs = (if xs = [] then Inl ValueError else Inr (xs ! (rng k mod length xs)))"

text \<open>
  The rejection loops \<^verbatim>\<open>while True: ...; if not (...): break\<close> of \<^verbatim>\<open>reset_env\<close>: each
  round draws \<open>n\<close> positions with \<^verbatim>\<open>randint(0, self.length)\<close> and leaves the loop when
  \<open>brk\<close> holds of them. The result carries the position of the next unused draw. A
  loop that never leaves has the value \<open>None\<close>.
\<close>

fun randints :: "(nat \<Rightarrow> nat) \<Rightarrow> nat \<Rightarrow> nat \<Rightarrow> int \<Rightarrow> int \<Rightarrow> error + int list" where
  "randints rng k 0 low high = Inr []"
| "randints rng k (Suc n) low high =
     (case randint rng k low high of Inl e \<Rightarrow> Inl e | Inr x \<Rightarrow>
      (case randints rng (Suc k) n low high of Inl e \<Rightarrow> Inl e | Inr xs \<Rightarrow> Inr (x # xs)))"

partial_function (option) draw_until ::
  "(nat \<Rightarrow> nat) \<Rightarrow> int \<Rightarrow> nat \<Rightarrow> (int list \<Rightarrow> bool) \<Rightarrow> nat \<Rightarrow> (error + int list \<times> nat) option" where
  "draw_until rng L n brk k =
     (case randints rng k n 0 L of
        Inl e \<Rightarrow> Some (Inl e)
      | Inr xs \<Rightarrow> if brk xs then Some (Inr (xs, k + n)) else draw_until rng L n brk (k + n))"

text \<open>
  The branches of \<^verbatim>\<open>reset_env\<close> of ListEnv on the task name, from draw \<open>k\<close> on: the
  initial pointers, an exception, or no result.
\<close>

definition init_pointers ::
  "(nat \<Rightarrow> nat) \<Rightarrow> nat \<Rightarrow> int \<Rightarrow> string \<Rightarrow> (error + int \<times> int) option" where
  "init_pointers rng k L current_task_name =
     (if current_task_name = ''BUBBLE'' \<or> current_task_name = ''BUBBLESORT'' then
        Some (Inr (0, 0))
      else if current_task_name = ''RESET'' then
        (case draw_until rng L 2 (\<lambda>xs. \<not> (xs ! 0 = 0 \<and> xs ! 1 = 0)) k of
           None \<Rightarrow> None
         | Some (Inl e) \<Rightarrow> Some (Inl e)
         | Some (Inr (xs, k')) \<Rightarrow> Some (Inr (xs ! 0, xs ! 1)))
      else if current_task_name = ''LSHIFT'' then
        (case draw_until rng L 2 (\<lambda>xs. \<not> (xs ! 0 = 0 \<and> xs ! 1 = 0)) k of
           None \<Rightarrow> None
         | Some (Inl e) \<Rightarrow> Some (Inl e)
         | Some (Inr (xs, k')) \<Rightarrow> Some (Inr (xs ! 0, xs ! 1)))
      else if current_task_name = ''RSHIFT'' then
        (case draw_until rng L 2 (\<lambda>xs. \<not> (xs ! 0 = L - 1 \<and> xs ! 1 = L - 1)) k of
           None \<Rightarrow> None
         | Some (Inl e) \<Rightarrow> Some (Inl e)
         | Some (Inr (xs, k')) \<Rightarrow> Some (Inr (xs ! 0, xs ! 1)))
      else if current_task_name = ''COMPSWAP'' then
        (case randint rng k 0 (L - 1) of
           Inl e \<Rightarrow> Some (Inl e)
         | Inr init_pointers_pos1 \<Rightarrow>
             (case choice rng (k + 1) [init_pointers_pos1, init_pointers_pos1 + 1] of
                Inl e \<Rightarrow> Some (Inl e)
              | Inr init_pointers_pos2 \<Rightarrow> Some (Inr (init_pointers_pos1, init_pointers_pos2))))
      else Some (Inl NotImplementedError))"

text \<open>
  \<^verbatim>\<open>reset_env\<close> of ListEnv. The task name comes from
  \<^verbatim>\<open>self.get_program_from_index(self.current_task_index)\<close> of the base class and is a
  parameter here. An exception is returned with the object as the exception leaves
  it: the scratchpad is already drawn when the branch on the task is taken, the
  pointers and the flag are stored after it.
\<close>

definition reset_env ::
  "(nat \<Rightarrow> nat) \<Rightarrow> string \<Rightarrow> list_env \<Rightarrow> (error \<times> list_env + list_env) option" where
  "reset_env rng current_task_name self =
     (case randint_array rng 0 10 (length_env self) of
        Inl e \<Rightarrow> Some (Inl (e, self))
      | Inr arr \<Rightarrow>
          (case init_pointers rng (nat (length_env self)) (length_env self) current_task_name of
             None \<Rightarrow> None
           | Some (Inl e) \<Rightarrow> Some (Inl (e, self\<lparr>scratchpad_ints := arr\<rparr>))
           | Some (Inr (init_pointers_pos1, init_pointers_pos2)) \<Rightarrow>
               Some (Inr (self\<lparr>scratchpad_ints := arr, p1_pos := init_pointers_pos1,
                               p2_pos := init_pointers_pos2, has_been_reset := True\<rparr>))))"

text \<open>The same for QuickSortListEnv, with three pointers.\<close>

definition qs_init_pointers ::
  "(nat \<Rightarrow> nat) \<Rightarrow> nat \<Rightarrow> int \<Rightarrow> string \<Rightarrow> (error + int \<times> int \<times> int) option" where
  "qs_init_pointers rng k L current_task_name =
     (if current_task_name = ''BUBBLE'' \<or> current_task_name = ''BUBBLESORT'' then
        Some (Inr (0, 0, 0))
      else if current_task_name = ''PARTITION'' \<or> current_task_name = ''COMPSWAP_PARTITION'' then
        (case draw_until rng L 1 (\<lambda>xs. \<not> (xs ! 0 = 0)) k of
           None \<Rightarrow> None
         | Some (Inl e) \<Rightarrow> Some (Inl e)
         | Some (Inr (xs, k')) \<Rightarrow>
             (case randint rng k' 0 (xs ! 0) of
                Inl e \<Rightarrow> Some (Inl e)
              | Inr init_pointers_pos1 \<Rightarrow>
                  Some (Inr (init_pointers_pos1, xs ! 0, init_pointers_pos1))))
      else if current_task_name = ''QUICKSORT'' then
        Some (Inr (0, L - 1, 0))
      else if current_task_name = ''RESET'' then
        (case draw_until rng L 3 (\<lambda>xs. \<not> (xs ! 0 = 0 \<and> xs ! 1 = 0 \<and> xs ! 2 = 0)) k of
           None \<Rightarrow> None
         | Some (Inl e) \<Rightarrow> Some (Inl e)
         | Some (Inr (xs, k')) \<Rightarrow> Some (Inr (xs ! 0, xs ! 1, xs ! 2)))
      else if current_task_name = ''LSHIFT'' then
        (case draw_until rng L 3 (\<lambda>xs. \<not> (xs ! 0 = 0 \<and> xs ! 1 = 0 \<and> xs ! 2 = 0)) k of
           None \<Rightarrow> None
         | Some (Inl e) \<Rightarrow> Some (Inl e)
         | Some (Inr (xs, k')) \<Rightarrow> Some (Inr (xs ! 0, xs ! 1, xs ! 2)))
      else if current_task_name = ''RSHIFT'' then
        (case draw_until rng L 3
                (\<lambda>xs. \<not> (xs ! 0 = L - 1 \<and> xs ! 1 = L - 1 \<and> xs ! 2 = L - 1)) k of
           None \<Rightarrow> None
         | Some (Inl e) \<Rightarrow> Some (Inl e)
         | Some (Inr (xs, k')) \<Rightarrow> Some (Inr (xs ! 0, xs ! 1, xs ! 2)))
      else if current_task_name = ''COMPSWAP'' then
        (case randint rng k 0 (L - 1) of
           Inl e \<Rightarrow> Some (Inl e)
         | Inr init_pointers_pos1 \<Rightarrow>
             (case choice rng (k + 1) [init_pointers_pos1, init_pointers_pos1 + 1] of
                Inl e \<Rightarrow> Some (Inl e)
              | Inr init_pointers_pos2 \<Rightarrow>
                  Some (Inr (init_pointers_pos1, init_pointers_pos2, 0))))
      else Some (Inl NotImplementedError))"

definition qs_reset_env ::
  "(nat \<Rightarrow> nat) \<Rightarrow> string \<Rightarrow> quicksort_list_env
     \<Rightarrow> (error \<times> quicksort_list_env + quicksort_list_env) option" where
  "qs_reset_env rng current_task_name self =
     (case randint_array rng 0 10 (length_env self) of
        Inl e \<Rightarrow> Some (Inl (e, self))
      | Inr arr \<Rightarrow>
          (case randint_array rng (nat (length_env self)) (length_env self - 1)
                  (3 * (length_env self mod 2)) of
             Inl e \<Rightarrow> Some (Inl (e, self\<lparr>scratchpad_ints := arr\<rparr>))
           | Inr st \<Rightarrow>
               (case qs_init_pointers rng (nat (length_env self) + length st) (length_env self)
                       current_task_name of
                  None \<Rightarrow> None
                | Some (Inl e) \<Rightarrow> Some (Inl (e, self\<lparr>scratchpad_ints := arr, prog_stack := st\<rparr>))
                | Some (Inr (init_pointers_pos1, init_pointers_pos2, init_pointers_pos3)) \<Rightarrow>
                    Some (Inr (self\<lparr>scratchpad_ints := arr, p1_pos := init_pointers_pos1,
                                    p2_pos := init_pointers_pos2, has_been_reset := True,
                                    p3_pos := init_pointers_pos3, prog_stack := st\<rparr>)))))"

text \<open>
  The states an environment of length \<open>L\<close> can be in: after the constructor and a
  \<^verbatim>\<open>reset_env\<close> that returned, after a further \<^verbatim>\<open>reset_env\<close> that returned, and after a
  primitive of \<^verbatim>\<open>prog_to_func\<close> run when its entry of \<^verbatim>\<open>prog_to_precondition\<close> held.
\<close>

inductive reachable :: "bool \<Rightarrow> int \<Rightarrow> list_env \<Rightarrow> bool" for hierarchy :: bool and L :: int where
  reachable_init:
    "list_env_init L hierarchy = Inr e0 \<Longrightarrow> reset_env rng task e0 = Some (Inr e)
     \<Longrightarrow> reachable hierarchy L e"
| reachable_reset:
    "reachable hierarchy L e \<Longrightarrow> reset_env rng task e = Some (Inr e')
     \<Longrightarrow> reachable hierarchy L e'"
| reachable_act:
    "reachable hierarchy L e \<Longrightarrow> prog_to_func hierarchy name = Some f
     \<Longrightarrow> prog_to_precondition hierarchy name = Some pre \<Longrightarrow> pre e \<Longrightarrow> f e = Inr e'
     \<Longrightarrow> reachable hierarchy L e'"

inductive qs_reachable :: "bool \<Rightarrow> int \<Rightarrow> quicksort_list_env \<Rightarrow> bool"
  for hierarchy :: bool and L :: int where
  qs_reachable_init:
    "quicksort_list_env_init L hierarchy = Inr e0 \<Longrightarrow> qs_reset_env rng task e0 = Some (Inr e)
     \<Longrightarrow> qs_reachable hierarchy L e"
| qs_reachable_reset:
    "qs_reachable hierarchy L e \<Longrightarrow> qs_reset_env rng task e = Some (Inr e')
     \<Longrightarrow> qs_reachable hierarchy L e'"
| qs_reachable_act:
    "qs_reachable hierarchy L e \<Longrightarrow> qs_prog_to_func hierarchy name = Some f
     \<Longrightarrow> qs_prog_to_precondition hierarchy name = Some pre \<Longrightarrow> pre e \<Longrightarrow> f e = Inr e'
     \<Longrightarrow> qs_reachable hierarchy L e'"

section \<open>The program registry\<close>

text \<open>
  The dictionary literals \<^verbatim>\<open>programs_library\<close> of the two constructors, each entry
  with its level and its \<^verbatim>\<open>recursive\<close> flag, in the order of the source. The
  hierarchical library of QuickSortListEnv goes through
  \<^verbatim>\<open>OrderedDict(sorted(....items()))\<close>, which orders the entries by their keys.
\<close>

definition programs_library :: "bool \<Rightarrow> (string \<times> int \<times> bool) list" where
  "programs_library hierarchy =
     (if hierarchy then
        [(''PTR_1_LEFT'', 0, False), (''STOP'', -1, False), (''PTR_2_LEFT'', 0, False),
         (''PTR_1_RIGHT'', 0, False), (''PTR_2_RIGHT'', 0, False), (''SWAP'', 0, False),
         (''RSHIFT'', 1, False), (''LSHIFT'', 1, False), (''COMPSWAP'', 1, False),
         (''RESET'', 2, False), (''BUBBLE'', 2, False), (''BUBBLESORT'', 3, False)]
      else
        [(''PTR_1_LEFT'', 0, False), (''STOP'', -1, False), (''PTR_2_LEFT'', 0, False),
         (''PTR_1_RIGHT'', 0, False), (''PTR_2_RIGHT'', 0, False), (''SWAP'', 0, False),
         (''BUBBLESORT'', 1, False)])"

definition qs_programs_library :: "bool \<Rightarrow> (string \<times> int \<times> bool) list" where
  "qs_programs_library hierarchy =
     (if hierarchy then
        sort_key fst
        [(''PTR_1_LEFT'', 0, False), (''STOP'', -1, False), (''PTR_2_LEFT'', 0, False),
         (''PTR_1_RIGHT'', 0, False), (''PTR_2_RIGHT'', 0, False), (''PTR_3_LEFT'', 0, False),
         (''PTR_3_RIGHT'', 0, False), (''SWAP'', 0, False), (''SWAP_2'', 0, False),
         (''SWAP_3'', 0, False), (''PUSH'', 0, False), (''POP'', 0, False),
         (''RSHIFT'', 1, False), (''LSHIFT'', 1, False), (''COMPSWAP_PARTITION'', 1, False),
         (''RESET'', 2, False), (''PARTITION'', 2, False), (''QUICKSORT'', 3, False)]
      else
        [(''PTR_1_LEFT'', 0, False), (''STOP'', -1, False), (''PTR_2_LEFT'', 0, False),
         (''PTR_1_RIGHT'', 0, False), (''PTR_2_RIGHT'', 0, False), (''SWAP'', 0, False),
         (''BUBBLESORT'', 1, False)])"

text \<open>
  The loop \<^verbatim>\<open>for idx, key in enumerate(sorted(list(self.programs_library.keys())))\<close>
  stores \<open>idx\<close> under \<open>key\<close>; Python orders strings by code point, a proper prefix
  first. \<open>programs_index\<close> is the resulting map from names to indices.
\<close>

definition programs_index :: "(string \<times> int \<times> bool) list \<Rightarrow> string \<Rightarrow> nat option" where
  "programs_index lib =
     map_of (map (\<lambda>(idx, key). (key, idx)) (enumerate 0 (sort (map fst lib))))"

text \<open>
  The rank of a name among the names, counting from 0: how many of them come
  before it in the lexicographic order. Written from the claim, not from the source.
\<close>

definition rank :: "string list \<Rightarrow> string \<Rightarrow> nat" where
  "rank names name = length (filter (\<lambda>k. k < name) names)"


section \<open>Notions used in the proofs about the sampler and the reachable states\<close>

text \<open>
  The draws of one round of a rejection loop that starts at position \<open>k\<close>; the
  bounds that hold of every reachable state; the task names for which
  \<^verbatim>\<open>reset_env\<close> of QuickSortListEnv has a branch.
\<close>

definition round_draws :: "(nat \<Rightarrow> nat) \<Rightarrow> int \<Rightarrow> nat \<Rightarrow> nat \<Rightarrow> int list" where
  "round_draws rng L n k = map (\<lambda>i. int (rng (k + i)) mod L) [0..<n]"

definition inv2 :: "int \<Rightarrow> 'a list_env_scheme \<Rightarrow> bool" where
  "inv2 L e = (length_env e = L \<and> int (length (scratchpad_ints e)) = L
               \<and> 0 \<le> p1_pos e \<and> p1_pos e < L \<and> 0 \<le> p2_pos e \<and> p2_pos e < L)"

definition inv3 :: "int \<Rightarrow> quicksort_list_env \<Rightarrow> bool" where
  "inv3 L e = (inv2 L e \<and> 0 \<le> p3_pos e \<and> p3_pos e < L
               \<and> length (prog_stack e) mod 3 = 0
               \<and> list_all (\<lambda>x. 0 \<le> x \<and> x < L) (prog_stack e))"

definition qs_sampled_tasks :: "string list" where
  "qs_sampled_tasks =
     [''BUBBLE'', ''BUBBLESORT'', ''PARTITION'', ''COMPSWAP_PARTITION'', ''QUICKSORT'',
      ''RESET'', ''LSHIFT'', ''RSHIFT'', ''COMPSWAP'']"



section \<open>Reference notions of the claims\<close>

text \<open>
  One left-to-right pass of adjacent compare-and-swap steps, written on the list
  itself and not from the source: the larger of the first two elements is carried
  on to the right. The loop of \<^verbatim>\<open>_bubble_postcondition\<close> is compared with it below.
\<close>

fun bubble_pass :: "int list \<Rightarrow> int list" where
  "bubble_pass (x # y # xs) =
     (if y < x then y # bubble_pass (x # xs) else x # bubble_pass (y # xs))"
| "bubble_pass xs = xs"

section \<open>Stack primitives\<close>

lemma list_pop_snoc: "list_pop (xs @ [x]) = Inr (x, xs)"
  by (simp add: list_pop_def)

lemma pop_snoc3:
  "prog_stack self = st @ [a, b, c] \<Longrightarrow>
   pop self = Inr (self\<lparr>p1_pos := c, p2_pos := b, p3_pos := a, prog_stack := st\<rparr>)"
proof -
  assume h: "prog_stack self = st @ [a, b, c]"
  have e1: "list_pop (st @ [a, b, c]) = Inr (c, st @ [a, b])"
    using list_pop_snoc [of "st @ [a, b]" c] by simp
  have e2: "list_pop (st @ [a, b]) = Inr (b, st @ [a])"
    using list_pop_snoc [of "st @ [a]" b] by simp
  have e3: "list_pop (st @ [a]) = Inr (a, st)"
    by (rule list_pop_snoc)
  show ?thesis
    by (simp add: pop_def h e1 e2 e3)
qed

lemma split_last3:
  assumes "3 \<le> length st"
  shows "st = take (length st - 3) st @
              [st ! (length st - 3), st ! (length st - 2), st ! (length st - 1)]"
proof -
  define n where "n = length st - 3"
  have len: "length st = n + 3" using assms by (simp add: n_def)
  have "drop n st = [st ! n, st ! (n + 1), st ! (n + 2)]"
  proof (rule nth_equalityI)
    show "length (drop n st) = length [st ! n, st ! (n + 1), st ! (n + 2)]"
      by (simp add: len)
  next
    fix i assume "i < length (drop n st)"
    then have "i = 0 \<or> i = 1 \<or> i = 2" by (auto simp: len)
    then show "drop n st ! i = [st ! n, st ! (n + 1), st ! (n + 2)] ! i"
      by (auto simp: len)
  qed
  then have "st = take n st @ [st ! n, st ! (n + 1), st ! (n + 2)]"
    by (metis append_take_drop_id)
  then show ?thesis
    by (simp add: len)
qed


lemma push_stack:
  "push self = Inr (self\<lparr>prog_stack :=
      prog_stack self
      @ (if p3_pos self + 1 < p2_pos self
         then [p3_pos self + 1, p2_pos self, p3_pos self + 1] else [])
      @ (if p3_pos self - 1 > 0
         then [p1_pos self, p3_pos self - 1, p1_pos self] else [])\<rparr>)"
  by (simp add: push_def push_precondition_def Let_def)

lemma push_example:
  "push \<lparr>length_env = 10, scratchpad_ints = [5, 2, 8, 1, 9, 3, 7, 0, 4, 6], p1_pos = 1,
         p2_pos = 6, has_been_reset = True, p3_pos = 3, prog_stack = []\<rparr>
   = Inr \<lparr>length_env = 10, scratchpad_ints = [5, 2, 8, 1, 9, 3, 7, 0, 4, 6], p1_pos = 1,
         p2_pos = 6, has_been_reset = True, p3_pos = 3, prog_stack = [4, 6, 4, 1, 2, 1]\<rparr>"
  by (simp add: push_stack)

text \<open>
  C5. PUSH appends (p3+1, p2, p3+1) and then (p1, p3-1, p1), each only when its
  sub-range is not empty. The second group is guarded by \<open>p3 - 1 > 0\<close>, a comparison
  with the constant 0 where the first guard compares with the bound \<open>p2\<close> of its own
  sub-range. With p1 = 3, p2 = 6, p3 = 3 the sub-range [p1, p3-1] = [3, 2] is empty
  and the triple (3, 2, 3) is appended all the same.
\<close>

theorem push_appends_empty_subrange:
  "push \<lparr>length_env = 10, scratchpad_ints = [5, 2, 8, 1, 9, 3, 7, 0, 4, 6], p1_pos = 3,
         p2_pos = 6, has_been_reset = True, p3_pos = 3, prog_stack = []\<rparr>
   = Inr \<lparr>length_env = 10, scratchpad_ints = [5, 2, 8, 1, 9, 3, 7, 0, 4, 6], p1_pos = 3,
         p2_pos = 6, has_been_reset = True, p3_pos = 3, prog_stack = [4, 6, 4, 3, 2, 3]\<rparr>"
  by (simp add: push_def push_precondition_def)

text \<open>
  C6. With at least three elements on the stack, POP removes the last three and
  stores the last in p1, the one before in p2 and the third from the end in p3; a
  POP right after a PUSH that appended one triple (a, b, c) gives back the stack of
  before the PUSH and sets (p1, p2, p3) to (a, b, c); with fewer than three elements
  POP changes nothing.
\<close>

theorem pop_spec:
  "(3 \<le> length (prog_stack self) \<longrightarrow>
      pop self = Inr (self\<lparr>p1_pos := prog_stack self ! (length (prog_stack self) - 1),
                           p2_pos := prog_stack self ! (length (prog_stack self) - 2),
                           p3_pos := prog_stack self ! (length (prog_stack self) - 3),
                           prog_stack := take (length (prog_stack self) - 3) (prog_stack self)\<rparr>))
   \<and> (length (prog_stack self) < 3 \<longrightarrow> pop self = Inr self)
   \<and> (push self = Inr s' \<and> prog_stack s' = prog_stack self @ [a, b, c] \<longrightarrow>
        pop s' = Inr (self\<lparr>p1_pos := a, p2_pos := b, p3_pos := c\<rparr>))"
proof (intro conjI impI)
  assume "3 \<le> length (prog_stack self)"
  from pop_snoc3 [OF split_last3 [OF this]]
  show "pop self = Inr (self\<lparr>p1_pos := prog_stack self ! (length (prog_stack self) - 1),
                           p2_pos := prog_stack self ! (length (prog_stack self) - 2),
                           p3_pos := prog_stack self ! (length (prog_stack self) - 3),
                           prog_stack := take (length (prog_stack self) - 3) (prog_stack self)\<rparr>)" .
next
  assume "length (prog_stack self) < 3"
  then show "pop self = Inr self"
    by (simp add: pop_def)
next
  assume h: "push self = Inr s' \<and> prog_stack s' = prog_stack self @ [a, b, c]"
  define X where "X = (if p3_pos self + 1 < p2_pos self
         then [p3_pos self + 1, p2_pos self, p3_pos self + 1] else [])"
  define Y where "Y = (if p3_pos self - 1 > 0
         then [p1_pos self, p3_pos self - 1, p1_pos self] else [])"
  have ps: "push self = Inr (self\<lparr>prog_stack := prog_stack self @ X @ Y\<rparr>)"
    unfolding X_def Y_def by (rule push_stack)
  from h have "push self = Inr s'" ..
  from this ps have "(Inr s' :: error + quicksort_list_env)
                  = Inr (self\<lparr>prog_stack := prog_stack self @ X @ Y\<rparr>)"
    by (rule trans [OF sym])
  then have s'0: "s' = self\<lparr>prog_stack := prog_stack self @ X @ Y\<rparr>"
    by (simp only: sum.inject)
  then have "prog_stack s' = prog_stack self @ X @ Y"
    by simp
  with h have XY: "X @ Y = [a, b, c]"
    by simp
  have s': "s' = self\<lparr>prog_stack := prog_stack self @ [a, b, c]\<rparr>"
    using s'0 by (simp only: XY)
  have "X = [a, b, c] \<and> Y = [] \<or> X = [] \<and> Y = [a, b, c]"
    using XY unfolding X_def Y_def by (simp split: if_splits)
  then have ac: "a = c"
    unfolding X_def Y_def by (auto split: if_splits)
  have "pop s' = Inr (s'\<lparr>p1_pos := c, p2_pos := b, p3_pos := a, prog_stack := prog_stack self\<rparr>)"
    using h by (intro pop_snoc3) simp
  then show "pop s' = Inr (self\<lparr>p1_pos := a, p2_pos := b, p3_pos := c\<rparr>)"
    by (simp add: s' ac)
qed

theorem pop_spec_witness:
  "pop \<lparr>length_env = 10, scratchpad_ints = [5, 2, 8, 1, 9, 3, 7, 0, 4, 6], p1_pos = 0,
        p2_pos = 0, has_been_reset = True, p3_pos = 0, prog_stack = [7, 8, 9, 4, 6, 5]\<rparr>
   = Inr \<lparr>length_env = 10, scratchpad_ints = [5, 2, 8, 1, 9, 3, 7, 0, 4, 6], p1_pos = 5,
        p2_pos = 6, has_been_reset = True, p3_pos = 4, prog_stack = [7, 8, 9]\<rparr>
   \<and> pop \<lparr>length_env = 10, scratchpad_ints = [5, 2, 8, 1, 9, 3, 7, 0, 4, 6], p1_pos = 1,
        p2_pos = 2, has_been_reset = True, p3_pos = 3, prog_stack = [7, 8]\<rparr>
   = Inr \<lparr>length_env = 10, scratchpad_ints = [5, 2, 8, 1, 9, 3, 7, 0, 4, 6], p1_pos = 1,
        p2_pos = 2, has_been_reset = True, p3_pos = 3, prog_stack = [7, 8]\<rparr>
   \<and> pop \<lparr>length_env = 10, scratchpad_ints = [5, 2, 8, 1, 9, 3, 7, 0, 4, 6], p1_pos = 0,
        p2_pos = 6, has_been_reset = True, p3_pos = 1, prog_stack = [7, 8, 9, 2, 6, 2]\<rparr>
   = Inr \<lparr>length_env = 10, scratchpad_ints = [5, 2, 8, 1, 9, 3, 7, 0, 4, 6], p1_pos = 2,
        p2_pos = 6, has_been_reset = True, p3_pos = 2, prog_stack = [7, 8, 9]\<rparr>"
proof (intro conjI)
  let ?e1 = "\<lparr>length_env = 10, scratchpad_ints = [5, 2, 8, 1, 9, 3, 7, 0, 4, 6], p1_pos = 0,
        p2_pos = 0, has_been_reset = True, p3_pos = 0, prog_stack = [7, 8, 9, 4, 6, 5]\<rparr>"
  have "3 \<le> length (prog_stack ?e1)" by simp
  with pop_spec [of ?e1] have "pop ?e1 = Inr (?e1\<lparr>p1_pos := prog_stack ?e1 ! (length (prog_stack ?e1) - 1),
                           p2_pos := prog_stack ?e1 ! (length (prog_stack ?e1) - 2),
                           p3_pos := prog_stack ?e1 ! (length (prog_stack ?e1) - 3),
                           prog_stack := take (length (prog_stack ?e1) - 3) (prog_stack ?e1)\<rparr>)"
    by blast
  then show "pop ?e1 = Inr \<lparr>length_env = 10, scratchpad_ints = [5, 2, 8, 1, 9, 3, 7, 0, 4, 6],
        p1_pos = 5, p2_pos = 6, has_been_reset = True, p3_pos = 4, prog_stack = [7, 8, 9]\<rparr>"
    by simp
next
  let ?e2 = "\<lparr>length_env = 10, scratchpad_ints = [5, 2, 8, 1, 9, 3, 7, 0, 4, 6], p1_pos = 1,
        p2_pos = 2, has_been_reset = True, p3_pos = 3, prog_stack = [7, 8]\<rparr>"
  have "length (prog_stack ?e2) < 3" by simp
  with pop_spec [of ?e2] show "pop ?e2 = Inr ?e2"
    by blast
next
  let ?e3 = "\<lparr>length_env = 10, scratchpad_ints = [5, 2, 8, 1, 9, 3, 7, 0, 4, 6], p1_pos = 0,
        p2_pos = 6, has_been_reset = True, p3_pos = 1, prog_stack = [7, 8, 9]\<rparr>"
  let ?e4 = "\<lparr>length_env = 10, scratchpad_ints = [5, 2, 8, 1, 9, 3, 7, 0, 4, 6], p1_pos = 0,
        p2_pos = 6, has_been_reset = True, p3_pos = 1, prog_stack = [7, 8, 9, 2, 6, 2]\<rparr>"
  have "push ?e3 = Inr ?e4 \<and> prog_stack ?e4 = prog_stack ?e3 @ [2, 6, 2]"
    by (simp add: push_def push_precondition_def)
  with pop_spec [of ?e3 ?e4 2 6 2]
  have "pop ?e4 = Inr (?e3\<lparr>p1_pos := 2, p2_pos := 6, p3_pos := 2\<rparr>)"
    by blast
  then show "pop ?e4 = Inr \<lparr>length_env = 10, scratchpad_ints = [5, 2, 8, 1, 9, 3, 7, 0, 4, 6],
        p1_pos = 2, p2_pos = 6, has_been_reset = True, p3_pos = 2, prog_stack = [7, 8, 9]\<rparr>"
    by simp
qed

section \<open>Shift postconditions\<close>

lemma rshift_postcondition_iff:
  "rshift_postcondition L (sp, a, b) (sp', a', b') \<longleftrightarrow>
     sp' = sp \<and> a' = (if a < L - 1 then a + 1 else a) \<and> b' = (if b < L - 1 then b + 1 else b)"
  by (auto simp: rshift_postcondition_def)

lemma lshift_postcondition_iff:
  "lshift_postcondition L (sp, a, b) (sp', a', b') \<longleftrightarrow>
     sp' = sp \<and> a' = (if a > 0 then a - 1 else a) \<and> b' = (if b > 0 then b - 1 else b)"
  by (auto simp: lshift_postcondition_def)

lemma qs_rshift_postcondition_iff:
  "qs_rshift_postcondition L (sp, a, b, c, stk) (sp', a', b', c', stk') \<longleftrightarrow>
     sp' = sp \<and> stk' = stk
     \<and> a' = (if a < L - 1 then a + 1 else a)
     \<and> b' = (if b < L - 1 then b + 1 else b)
     \<and> c' = (if c < L - 1 then c + 1 else c)"
  by (auto simp: qs_rshift_postcondition_def)

lemma qs_lshift_postcondition_iff:
  "qs_lshift_postcondition L (sp, a, b, c, stk) (sp', a', b', c', stk') \<longleftrightarrow>
     stk' = stk
     \<and> a' = (if a > 0 then a - 1 else a)
     \<and> b' = (if b > 0 then b - 1 else b)
     \<and> c' = (if c > 0 then c - 1 else c)"
  by (auto simp: qs_lshift_postcondition_def)

lemma rshift_example:
  "rshift_postcondition 5 (sp, 4, 2) (sp, 4, 3)
   \<and> \<not> rshift_postcondition 5 (sp, 4, 2) (sp, 4, 2)
   \<and> \<not> rshift_postcondition 5 (sp, 4, 2) (sp, 4, 4)
   \<and> qs_rshift_postcondition 5 (sp, 4, 2, 0, stk) (sp, 4, 3, 1, stk)
   \<and> \<not> qs_rshift_postcondition 5 (sp, 4, 2, 0, stk) (sp, 4, 2, 1, stk)
   \<and> \<not> qs_rshift_postcondition 5 (sp, 4, 2, 0, stk) (sp, 4, 4, 1, stk)"
  by (simp add: rshift_postcondition_iff qs_rshift_postcondition_iff)

text \<open>
  C2. The RSHIFT and LSHIFT postconditions hold only if scratchpad and stack are
  those of the snapshot and every pointer has moved one step, a pointer at the
  boundary staying. The three lemmas \<open>rshift_postcondition_iff\<close>,
  \<open>lshift_postcondition_iff\<close> and \<open>qs_rshift_postcondition_iff\<close> give this for ListEnv
  and for RSHIFT of QuickSortListEnv. LSHIFT of QuickSortListEnv overwrites the
  result of the scratchpad comparison: on a list of length 2, from ([1, 2], 1, 1, 1, [])
  the state ([2, 1], 0, 0, 0, []) with another scratchpad is accepted.
\<close>

theorem qs_lshift_postcondition_ignores_scratchpad:
  "qs_check_postcondition True 2 ''LSHIFT'' ([1, 2], 1, 1, 1, []) ([2, 1], 0, 0, 0, []) = Inr True"
  by (simp add: qs_check_postcondition_def qs_prog_to_postcondition_def
        qs_lshift_postcondition_def)

section \<open>The PARTITION postcondition\<close>

lemma partition_arr_example: "partition_arr [3, 1, 2] 0 2 0 = Inr ([1, 2, 3], 0, 2, 1)"
  by code_simp

text \<open>
  C3. For a snapshot with p1 \<le> p2 and p3 = p1, the PARTITION postcondition is true
  exactly of the result of one partition pass over [p1, p2]. On the snapshot
  ([3, 1, 2], 0, 2, 0, []) the pass of \<^verbatim>\<open>_partition\<close> gives [1, 2, 3] with pivot index 1
  (\<open>partition_arr_example\<close>); the postcondition, asked about this very result, raises
  NameError and returns nothing.
\<close>

theorem partition_postcondition_raises:
  "qs_check_postcondition True 3 ''PARTITION'' ([3, 1, 2], 0, 2, 0, []) ([1, 2, 3], 0, 2, 1, [])
   = Inl NameError"
  by (simp add: qs_check_postcondition_def qs_prog_to_postcondition_def
        partition_postcondition_def module_globals_def)

section \<open>The postcondition of the top-level programs\<close>

lemma adjacent_le_sorted:
  "list_all (\<lambda>b. b) (map (\<lambda>(x, y). x \<le> y) (zip (butlast xs) (tl xs))) = sorted (xs :: int list)"
proof (induction xs rule: induct_list012)
  case (3 x y zs)
  have "sorted (x # y # zs) = (x \<le> y \<and> sorted (y # zs))"
    by (rule sorted2)
  with 3 show ?case
    by (simp del: sorted_wrt.simps)
qed simp_all

lemma slice_front: "int (length xs) = L \<Longrightarrow> py_slice xs 0 (L - 1) = butlast xs"
  by (auto simp: py_slice_def Let_def butlast_conv_take nat_diff_distrib)

lemma slice_back: "int (length xs) = L \<Longrightarrow> py_slice xs 1 L = tl xs"
  by (cases xs) (auto simp: py_slice_def Let_def min_def)

lemma np_le_adjacent:
  "np_le (butlast xs) (tl xs) = Inr (map (\<lambda>(x, y). x \<le> y) (zip (butlast xs) (tl xs)))"
  by (simp add: np_le_def)

lemma all_adjacent_le:
  "int (length sp) = L \<Longrightarrow>
   (case np_le (py_slice sp 0 (L - 1)) (py_slice sp 1 L) of
      Inl e \<Rightarrow> Inl e | Inr bs \<Rightarrow> Inr (np_all bs)) = Inr (sorted sp)"
  by (simp add: slice_front slice_back np_le_adjacent np_all_def adjacent_le_sorted)

text \<open>
  C4. On a resulting state whose scratchpad has the length L of the environment, the
  BUBBLESORT postcondition of both classes and the QUICKSORT postcondition return
  true if and only if the scratchpad is non-decreasing from end to end; the
  snapshot, the pointers and the stack of the resulting state play no part.
\<close>

theorem sort_postcondition_sorted:
  "int (length sp) = L \<Longrightarrow>
     bubblesort_postcondition L s (sp, p1, p2) = Inr (sorted sp)
     \<and> qs_bubblesort_postcondition L s3 (sp, q1, q2, q3, stk) = Inr (sorted sp)
     \<and> quicksort_postcondition L s3 (sp, q1, q2, q3, stk) = Inr (sorted sp)"
  by (simp add: bubblesort_postcondition_def qs_bubblesort_postcondition_def
        quicksort_postcondition_def all_adjacent_le)

theorem sort_postcondition_sorted_witness:
  "int (length [1, 1, 3, 4, 5 :: int]) = 5
   \<and> bubblesort_postcondition 5 ([3, 1, 4, 1, 5], 0, 0) ([1, 1, 3, 4, 5], 4, 3) = Inr True
   \<and> qs_bubblesort_postcondition 5 ([3, 1, 4, 1, 5], 0, 0, 0, []) ([1, 1, 3, 4, 5], 4, 3, 2, [0, 1, 0])
       = Inr True
   \<and> quicksort_postcondition 5 ([3, 1, 4, 1, 5], 0, 4, 0, []) ([1, 1, 3, 4, 5], 4, 3, 2, [0, 1, 0])
       = Inr True"
proof -
  have h: "int (length [1, 1, 3, 4, 5 :: int]) = 5" by simp
  show ?thesis
    using h sort_postcondition_sorted [OF h, of "([3, 1, 4, 1, 5], 0, 0)" 4 3
        "([3, 1, 4, 1, 5], 0, 0, 0, [])" 4 3 2 "[0, 1, 0]"]
      sort_postcondition_sorted [OF h, of "([3, 1, 4, 1, 5], 0, 0)" 4 3
        "([3, 1, 4, 1, 5], 0, 4, 0, [])" 4 3 2 "[0, 1, 0]"]
    by simp
qed

lemma bubblesort_postcondition_unsorted:
  "bubblesort_postcondition 5 ([3, 1, 4, 1, 5], 0, 0) ([1, 3, 1, 4, 5], 0, 0) = Inr False"
  using all_adjacent_le [of "[1, 3, 1, 4, 5]" 5]
  by (simp add: bubblesort_postcondition_def)

section \<open>The BUBBLE postcondition\<close>

lemma np_get_nat: "i < length arr \<Longrightarrow> np_get arr (int i) = Inr (arr ! i)"
  by (simp add: np_get_def np_index_def)

lemma np_swap_nat:
  "i < length arr \<Longrightarrow> j < length arr \<Longrightarrow>
   np_swap arr (int i) (int j) = Inr (arr[i := arr ! j, j := arr ! i])"
  by (simp add: np_swap_def np_index_def)

lemma np_get_nat_Suc: "Suc i < length arr \<Longrightarrow> np_get arr (int i + 1) = Inr (arr ! Suc i)"
  using np_get_nat [of "Suc i" arr] by (simp add: add.commute)

lemma np_swap_nat_Suc:
  "Suc i < length arr \<Longrightarrow>
   np_swap arr (int i) (int i + 1) = Inr (arr[i := arr ! Suc i, Suc i := arr ! i])"
  using np_swap_nat [of i arr "Suc i"] by (simp add: add.commute)

lemma length_bubble_pass: "length (bubble_pass xs) = length xs"
  by (induction xs rule: bubble_pass.induct) auto

lemma bubble_loop_pass:
  "bubble_loop [int (length pre) .. int (length pre) + int (length rest) - 2] (pre @ rest)
   = Inr (pre @ bubble_pass rest)"
proof (induction rest arbitrary: pre rule: bubble_pass.induct)
  case (1 x y xs)
  let ?k = "length pre"
  let ?arr = "pre @ x # y # xs"
  have idxs: "[int ?k .. int ?k + int (length (x # y # xs)) - 2]
                = int ?k # [int (length (pre @ [y])) .. int (length (pre @ [y])) + int (length (x # xs)) - 2]"
    by (simp add: upto_rec1 [of "int ?k"] add.commute)
  have g1: "np_get ?arr (int ?k + 1) = Inr y"
    using np_get_nat_Suc [of ?k ?arr] by (simp add: nth_append)
  have g0: "np_get ?arr (int ?k) = Inr x"
    using np_get_nat [of ?k ?arr] by (simp add: nth_append)
  have sw: "np_swap ?arr (int ?k) (int ?k + 1) = Inr ((pre @ [y]) @ x # xs)"
    using np_swap_nat_Suc [of ?k ?arr] by (simp add: nth_append list_update_append)
  have idxs': "[int ?k .. int ?k + int (length (x # y # xs)) - 2]
                = int ?k # [int (length (pre @ [x])) .. int (length (pre @ [x])) + int (length (y # xs)) - 2]"
    by (simp add: upto_rec1 [of "int ?k"] add.commute)
  show ?case
  proof (cases "y < x")
    case True
    have ih: "bubble_loop [int (length (pre @ [y])) .. int (length (pre @ [y])) + int (length (x # xs)) - 2]
             ((pre @ [y]) @ x # xs) = Inr ((pre @ [y]) @ bubble_pass (x # xs))"
      using True by (rule "1.IH"(1))
    have "bubble_loop [int ?k .. int ?k + int (length (x # y # xs)) - 2] ?arr
            = Inr ((pre @ [y]) @ bubble_pass (x # xs))"
      by (simp only: idxs bubble_loop.simps g1 g0 sw True sum.case if_True ih)
    then show ?thesis
      using True by simp
  next
    case False
    have ih: "bubble_loop [int (length (pre @ [x])) .. int (length (pre @ [x])) + int (length (y # xs)) - 2]
             ((pre @ [x]) @ y # xs) = Inr ((pre @ [x]) @ bubble_pass (y # xs))"
      using False by (rule "1.IH"(2))
    have arr: "?arr = (pre @ [x]) @ y # xs"
      by simp
    have "bubble_loop [int ?k .. int ?k + int (length (x # y # xs)) - 2] ?arr
            = bubble_loop [int (length (pre @ [x])) .. int (length (pre @ [x])) + int (length (y # xs)) - 2] ?arr"
      by (simp only: idxs' bubble_loop.simps g1 g0 False sum.case if_False)
    also have "\<dots> = Inr ((pre @ [x]) @ bubble_pass (y # xs))"
      by (simp only: arr ih)
    finally show ?thesis
      using False by simp
  qed
qed simp_all

lemma bubble_loop_range:
  "int (length sp) = L \<Longrightarrow> bubble_loop (py_range 0 (L - 1)) sp = Inr (bubble_pass sp)"
  using bubble_loop_pass [of "[]" sp] by (simp add: py_range_def)

text \<open>
  C10. In ListEnv, with a snapshot whose scratchpad has the length L of the
  environment, the BUBBLE postcondition is true exactly when the scratchpad of the
  resulting state is one left-to-right pass of adjacent compare-and-swap steps over
  the scratchpad of the snapshot and both pointers of the resulting state are L-1,
  whatever the pointers of the snapshot.
\<close>

theorem bubble_postcondition_pass:
  "int (length sp) = L \<Longrightarrow>
   bubble_postcondition L (sp, a, b) (sp', a', b')
     = Inr (sp' = bubble_pass sp \<and> a' = L - 1 \<and> b' = L - 1)"
  by (simp add: bubble_postcondition_def bubble_loop_range compare_state_def)

theorem bubble_postcondition_pass_witness:
  "int (length [3, 1, 4, 1, 5 :: int]) = 5
   \<and> bubble_postcondition 5 ([3, 1, 4, 1, 5], 0, 1) ([1, 3, 1, 4, 5], 4, 4) = Inr True
   \<and> bubble_postcondition 5 ([3, 1, 4, 1, 5], 0, 1) ([1, 3, 1, 4, 5], 0, 4) = Inr False
   \<and> bubble_postcondition 5 ([3, 1, 4, 1, 5], 0, 1) ([1, 1, 3, 4, 5], 4, 4) = Inr False"
proof -
  have h: "int (length [3, 1, 4, 1, 5 :: int]) = 5" by simp
  show ?thesis
    using h bubble_postcondition_pass [OF h, of 0 1 "[1, 3, 1, 4, 5]" 4 4]
      bubble_postcondition_pass [OF h, of 0 1 "[1, 3, 1, 4, 5]" 0 4]
      bubble_postcondition_pass [OF h, of 0 1 "[1, 1, 3, 4, 5]" 4 4]
    by simp
qed

section \<open>The COMPSWAP\_PARTITION postcondition\<close>

lemma np_get_int:
  "0 \<le> i \<Longrightarrow> i < int (length arr) \<Longrightarrow> np_get arr i = Inr (arr ! nat i)"
  by (simp add: np_get_def np_index_def)

lemma np_swap_int:
  "0 \<le> i \<Longrightarrow> i < int (length arr) \<Longrightarrow> 0 \<le> j \<Longrightarrow> j < int (length arr) \<Longrightarrow>
   np_swap arr i j = Inr (arr[nat i := arr ! nat j, nat j := arr ! nat i])"
  by (simp add: np_swap_def np_index_def)

lemma np_swap_int_props:
  assumes "0 \<le> i" "i < int (length arr)" "0 \<le> j" "j < int (length arr)"
  shows "\<exists>arr'. np_swap arr i j = Inr arr' \<and> length arr' = length arr \<and> mset arr' = mset arr"
proof -
  have "mset (arr[nat i := arr ! nat j, nat j := arr ! nat i]) = mset arr"
    using assms by (intro mset_swap) auto
  then show ?thesis
    using np_swap_int [OF assms] by simp
qed

lemma compswap_partition_loop_safe:
  "0 \<le> q \<Longrightarrow> q \<le> i \<Longrightarrow> i \<le> p2 \<Longrightarrow> p2 < int (length arr) \<Longrightarrow> nat (p2 - i) = n \<Longrightarrow>
   \<exists>arr' q'. compswap_partition_loop [i..p2 - 1] p2 arr q = Inr (arr', q')
      \<and> q \<le> q' \<and> q' \<le> q + (p2 - i)
      \<and> length arr' = length arr \<and> mset arr' = mset arr"
proof (induction n arbitrary: i arr q)
  case 0
  then have "[i..p2 - 1] = []" by simp
  with 0 show ?case by simp
next
  case (Suc n)
  then have lt: "i < p2" by simp
  then have idxs: "[i..p2 - 1] = i # [i + 1..p2 - 1]"
    by (simp add: upto_rec1)
  have gi: "np_get arr i = Inr (arr ! nat i)"
    using Suc.prems lt by (intro np_get_int) auto
  have gp: "np_get arr p2 = Inr (arr ! nat p2)"
    using Suc.prems lt by (intro np_get_int) auto
  show ?case
  proof (cases "arr ! nat i < arr ! nat p2")
    case True
    obtain arr1 where sw: "np_swap arr (q + 1) i = Inr arr1"
      and len1: "length arr1 = length arr" and ms1: "mset arr1 = mset arr"
      using np_swap_int_props [of "q + 1" arr i] Suc.prems lt by auto
    have "\<exists>arr' q'. compswap_partition_loop [i + 1..p2 - 1] p2 arr1 (q + 1) = Inr (arr', q')
      \<and> q + 1 \<le> q' \<and> q' \<le> (q + 1) + (p2 - (i + 1))
      \<and> length arr' = length arr1 \<and> mset arr' = mset arr1"
      using Suc.prems lt len1 by (intro Suc.IH) auto
    then obtain arr' q' where r: "compswap_partition_loop [i + 1..p2 - 1] p2 arr1 (q + 1) = Inr (arr', q')"
      and b: "q + 1 \<le> q'" "q' \<le> (q + 1) + (p2 - (i + 1))"
      and l: "length arr' = length arr1" "mset arr' = mset arr1"
      by blast
    have "compswap_partition_loop [i..p2 - 1] p2 arr q = Inr (arr', q')"
      by (simp only: idxs compswap_partition_loop.simps gi gp sw True sum.case if_True r)
    then show ?thesis
      using b l len1 ms1 by auto
  next
    case False
    have "\<exists>arr' q'. compswap_partition_loop [i + 1..p2 - 1] p2 arr q = Inr (arr', q')
      \<and> q \<le> q' \<and> q' \<le> q + (p2 - (i + 1))
      \<and> length arr' = length arr \<and> mset arr' = mset arr"
      using Suc.prems lt by (intro Suc.IH) auto
    then obtain arr' q' where r: "compswap_partition_loop [i + 1..p2 - 1] p2 arr q = Inr (arr', q')"
      and b: "q \<le> q'" "q' \<le> q + (p2 - (i + 1))"
      and l: "length arr' = length arr" "mset arr' = mset arr"
      by blast
    have "compswap_partition_loop [i..p2 - 1] p2 arr q = Inr (arr', q')"
      by (simp only: idxs compswap_partition_loop.simps gi gp False sum.case if_False r)
    then show ?thesis
      using b l by auto
  qed
qed

lemma qs_check_compswap_partition:
  "qs_check_postcondition True L ''COMPSWAP_PARTITION'' s t = compswap_partition_postcondition L s t"
  by (simp add: qs_check_postcondition_def qs_prog_to_postcondition_def)

text \<open>
  C1. The COMPSWAP\_PARTITION postcondition is true exactly of the comparison-swap
  step of the snapshot: the element at the larger of p1, p2 against the element at
  the smaller, swapped when out of order, everything else kept. On a list of length 2,
  from ([2, 1], 0, 1, 0, []) the comparison-swap step (the reference that
  \<^verbatim>\<open>_compswap_postcondition\<close> computes) gives ([1, 2], 0, 1, 0, []). The method
  registered for COMPSWAP\_PARTITION rejects this state and accepts the unchanged
  snapshot, in which the two elements are still out of order.
\<close>

theorem compswap_partition_not_compswap_step:
  "qs_compswap_reference 2 ([2, 1], 0, 1, 0, []) = Inr ([1, 2], 0, 1, 0, [])
   \<and> qs_check_postcondition True 2 ''COMPSWAP_PARTITION''
         ([2, 1], 0, 1, 0, []) ([1, 2], 0, 1, 0, []) = Inr False
   \<and> qs_check_postcondition True 2 ''COMPSWAP_PARTITION''
         ([2, 1], 0, 1, 0, []) ([2, 1], 0, 1, 0, []) = Inr True"
  by (simp add: qs_check_compswap_partition compswap_partition_postcondition_def py_range_def
      qs_compswap_reference_def np_get_def np_index_def np_swap_def qs_compare_state_def)

text \<open>
  What the registered method computes instead is a scan of the whole range: for a
  snapshot (sp, p1, p2, p3, stk) with 0 \<le> p1 and p2 inside the scratchpad it raises
  nothing, ends with a rearrangement arr of sp and a pointer p1' between p1 and
  max p1 p2, and accepts t exactly when t = (arr, p1', p2, p2-1, stk).
\<close>

lemma compswap_partition_scan_result:
  assumes "0 \<le> p1" and "p2 < int (length sp)"
  shows "\<exists>arr p1'. compswap_partition_loop (py_range p1 p2) p2 sp p1 = Inr (arr, p1')
      \<and> p1 \<le> p1' \<and> p1' \<le> max p1 p2 \<and> length arr = length sp \<and> mset arr = mset sp
      \<and> qs_check_postcondition True L ''COMPSWAP_PARTITION'' (sp, p1, p2, p3, stk) t
            = Inr (t = (arr, p1', p2, p2 - 1, stk))"
proof -
  obtain arr p1' where r: "compswap_partition_loop [p1..p2 - 1] p2 sp p1 = Inr (arr, p1')"
    and b: "p1 \<le> p1'" "p1' \<le> max p1 p2" "length arr = length sp" "mset arr = mset sp"
  proof (cases "p1 \<le> p2")
    case True
    then show ?thesis
      using compswap_partition_loop_safe [of p1 p1 p2 sp "nat (p2 - p1)"] assms that by auto
  next
    case False
    then have "[p1..p2 - 1] = []" by simp
    then show ?thesis
      using that [of sp p1] by simp
  qed
  have "qs_check_postcondition True L ''COMPSWAP_PARTITION'' (sp, p1, p2, p3, stk) t
               = Inr (t = (arr, p1', p2, p2 - 1, stk))"
    by (cases t)
      (auto simp: qs_check_compswap_partition compswap_partition_postcondition_def
         py_range_def r qs_compare_state_def)
  then show ?thesis
    using r b by (auto simp: py_range_def)
qed

text \<open>
  The scan is not a partition pass either. It advances p1 before it swaps, where
  \<^verbatim>\<open>_partition\<close> swaps and then advances: from ([1, 3, 2], 0, 2, 0) it ends in
  [3, 2, 1] with p1 = 2, where \<^verbatim>\<open>_partition\<close> ends in [1, 2, 3] with pivot index 1. With
  p1 = p2 = p3 = 0, where the precondition of COMPSWAP\_PARTITION holds, the only
  state it accepts has p3 = -1.
\<close>

lemma compswap_partition_scan_example:
  "compswap_partition_loop (py_range 0 2) 2 [1, 3, 2] 0 = Inr ([3, 2, 1], 2)
   \<and> partition_arr [1, 3, 2] 0 2 0 = Inr ([1, 2, 3], 0, 2, 1)"
  by code_simp

lemma compswap_partition_scan_p3_negative:
  "qs_check_postcondition True 2 ''COMPSWAP_PARTITION'' ([2, 1], 0, 0, 0, []) t
   = Inr (t = ([2, 1], 0, 0, - 1, []))"
  by (cases t)
    (auto simp: qs_check_compswap_partition compswap_partition_postcondition_def
       py_range_def qs_compare_state_def)

section \<open>Indices of the registry\<close>

lemma distinct_programs_library_hier: "distinct (map fst (programs_library True))"
  by (simp add: programs_library_def)
lemma distinct_programs_library_flat: "distinct (map fst (programs_library False))"
  by (simp add: programs_library_def)
lemma distinct_qs_programs_library_flat: "distinct (map fst (qs_programs_library False))"
  by (simp add: qs_programs_library_def)
lemma distinct_qs_programs_library_hier: "distinct (map fst (qs_programs_library True))"
proof -
  have "distinct (map fst (sort_key fst xs)) = distinct (map fst xs)" for xs :: "(string \<times> int \<times> bool) list"
    by (metis distinct_map distinct_sort inj_on_cong set_sort mset_sort set_mset_mset distinct_count_atmost_1 mset_map)
  then show ?thesis
    by (simp add: qs_programs_library_def)
qed


lemma filter_less_nth_sorted:
  assumes "sorted_wrt (<) (xs :: 'a :: linorder list)" and "i < length xs"
  shows "filter (\<lambda>k. k < xs ! i) xs = take i xs"
proof -
  have xs: "xs = take i xs @ xs ! i # drop (Suc i) xs"
    using assms(2) by (rule id_take_nth_drop)
  have sw: "sorted_wrt (<) (take i xs @ xs ! i # drop (Suc i) xs)"
    using assms(1) xs by simp
  have before: "\<forall>x \<in> set (take i xs). x < xs ! i"
    using sw by (auto simp: sorted_wrt_append)
  have after: "\<forall>x \<in> set (drop (Suc i) xs). xs ! i < x"
    using sw by (auto simp: sorted_wrt_append)
  have f1: "filter (\<lambda>k. k < xs ! i) (take i xs) = take i xs"
    using before by (simp add: filter_id_conv)
  have f2: "filter (\<lambda>k. k < xs ! i) (drop (Suc i) xs) = []"
    using after by (auto simp: filter_empty_conv)
  have "filter (\<lambda>k. k < xs ! i) (take i xs @ xs ! i # drop (Suc i) xs) = take i xs"
    by (simp add: f1 f2)
  then show ?thesis
    using xs by simp
qed

lemma rank_sort: "rank (sort ks) k = rank ks k"
proof -
  have "mset (filter (\<lambda>x. x < k) (sort ks)) = mset (filter (\<lambda>x. x < k) ks)"
    by simp
  then have "size (mset (filter (\<lambda>x. x < k) (sort ks))) = size (mset (filter (\<lambda>x. x < k) ks))"
    by (rule arg_cong)
  then show ?thesis
    unfolding rank_def size_mset .
qed

lemma enumerate_index:
  "map (\<lambda>(idx, key). (key, idx)) (enumerate 0 xs) = zip xs [0..<length xs]"
  by (rule nth_equalityI) (simp_all add: nth_enumerate_eq)


lemma programs_index_rank:
  assumes "distinct (map fst lib)" and "name \<in> fst ` set lib"
  shows "programs_index lib name = Some (rank (map fst lib) name)"
proof -
  let ?xs = "sort (map fst lib)"
  have d: "distinct ?xs" using assms(1) by simp
  have sw: "sorted_wrt (<) ?xs" using d by (simp add: strict_sorted_iff)
  from assms(2) have "name \<in> set ?xs" by simp
  then obtain i where i: "i < length ?xs" "?xs ! i = name"
    unfolding in_set_conv_nth by blast
  have "map_of (zip ?xs [0..<length ?xs]) (?xs ! i) = Some ([0..<length ?xs] ! i)"
    using d i(1) by (intro map_of_zip_nth) simp_all
  then have idx: "programs_index lib name = Some i"
    using i by (simp add: programs_index_def enumerate_index)
  have "rank ?xs (?xs ! i) = length (take i ?xs)"
    unfolding rank_def using filter_less_nth_sorted [OF sw i(1)] by simp
  then have "rank (map fst lib) name = i"
    using i by (simp add: rank_sort)
  with idx show ?thesis by simp
qed

lemma programs_index_ran:
  assumes "distinct (map fst lib)"
  shows "ran (programs_index lib) = {0..<length lib}"
proof -
  let ?xs = "sort (map fst lib)"
  have "ran (map_of (zip ?xs [0..<length ?xs])) = set [0..<length ?xs]"
    using assms by (intro ran_map_of_zip) simp_all
  then show ?thesis
    by (simp add: programs_index_def enumerate_index)
qed


text \<open>
  C9. In each of the four configurations (ListEnv and QuickSortListEnv, hierarchical
  and flat) the index stored for a program is its rank, counting from 0, in the
  lexicographic order of the program names of the configuration, and the indices
  handed out are exactly 0, ..., N-1 for the N programs.
\<close>

theorem programs_index_is_rank:
  "lib \<in> {programs_library True, programs_library False,
           qs_programs_library True, qs_programs_library False} \<Longrightarrow>
   (\<forall>name \<in> fst ` set lib. programs_index lib name = Some (rank (map fst lib) name))
   \<and> ran (programs_index lib) = {0..<length lib}"
proof -
  assume "lib \<in> {programs_library True, programs_library False,
           qs_programs_library True, qs_programs_library False}"
  then have "distinct (map fst lib)"
    using distinct_programs_library_hier distinct_programs_library_flat distinct_qs_programs_library_hier distinct_qs_programs_library_flat by auto
  then show ?thesis
    using programs_index_rank [of lib] programs_index_ran [of lib] by blast
qed

lemma rank_stop_qs: "rank (map fst (qs_programs_library True)) ''STOP'' = 14"
  by code_simp

lemma rank_stop: "rank (map fst (programs_library True)) ''STOP'' = 10"
  by code_simp

theorem programs_index_is_rank_witness:
  "qs_programs_library True \<in> {programs_library True, programs_library False,
           qs_programs_library True, qs_programs_library False}
   \<and> ''STOP'' \<in> fst ` set (qs_programs_library True)
   \<and> programs_index (qs_programs_library True) ''STOP'' = Some 14
   \<and> ran (programs_index (qs_programs_library True)) = {0..<18}"
proof -
  have m: "qs_programs_library True \<in> {programs_library True, programs_library False,
           qs_programs_library True, qs_programs_library False}"
    by simp
  have n: "''STOP'' \<in> fst ` set (qs_programs_library True)"
    by (simp add: qs_programs_library_def)
  have l: "length (qs_programs_library True) = 18"
    by (simp add: qs_programs_library_def)
  from programs_index_is_rank [OF m] n l rank_stop_qs m show ?thesis
    by (simp only: simp_thms) 
qed


section \<open>The sampler and the reachable states\<close>

lemma randints_map:
  "0 < L \<Longrightarrow> randints rng k n 0 L = Inr (map (\<lambda>i. int (rng (k + i)) mod L) [0..<n])"
proof (induction n arbitrary: k)
  case 0
  show ?case by simp
next
  case (Suc n)
  have "map (\<lambda>i. int (rng (k + i)) mod L) [0..<Suc n]
          = int (rng k) mod L # map (\<lambda>i. int (rng (Suc k + i)) mod L) [0..<n]"
    by (simp add: upt_conv_Cons map_Suc_upt [symmetric] del: upt_Suc)
  then show ?case
    using Suc by (simp add: randint_def del: upt_Suc)
qed

lemma round_draws_props:
  "0 < L \<Longrightarrow> length (round_draws rng L n k) = n
     \<and> (\<forall>i<n. 0 \<le> round_draws rng L n k ! i \<and> round_draws rng L n k ! i < L)"
  by (simp add: round_draws_def)

lemma draw_until_result:
  assumes "draw_until rng L n brk k = Some r" and "0 < L"
  shows "\<exists>j. r = Inr (round_draws rng L n j, j + n) \<and> brk (round_draws rng L n j)"
proof -
  have "0 < L \<longrightarrow> (\<exists>j. r = Inr (round_draws rng L n j, j + n) \<and> brk (round_draws rng L n j))"
  proof (rule draw_until.raw_induct
      [where P = "\<lambda>g M m b i y. 0 < M \<longrightarrow> (\<exists>j. y = Inr (round_draws g M m j, j + m) \<and> b (round_draws g M m j))",
        OF _ assms(1)])
    fix f g M m b i y
    assume IH: "\<And>g M m b i y. f g M m b i = Some y \<Longrightarrow>
                 0 < M \<longrightarrow> (\<exists>j. y = Inr (round_draws g M m j, j + m) \<and> b (round_draws g M m j))"
      and step: "(case randints g i m 0 M of Inl e \<Rightarrow> Some (Inl e)
                  | Inr xs \<Rightarrow> if b xs then Some (Inr (xs, i + m)) else f g M m b (i + m)) = Some y"
    show "0 < M \<longrightarrow> (\<exists>j. y = Inr (round_draws g M m j, j + m) \<and> b (round_draws g M m j))"
    proof
      assume M: "0 < M"
      show "\<exists>j. y = Inr (round_draws g M m j, j + m) \<and> b (round_draws g M m j)"
      proof (cases "b (round_draws g M m i)")
        case True
        then have "y = Inr (round_draws g M m i, i + m)"
          using step M by (simp add: randints_map round_draws_def)
        with True show ?thesis by blast
      next
        case False
        then have "f g M m b (i + m) = Some y"
          using step M by (simp add: randints_map round_draws_def)
        from IH [OF this] M show ?thesis by blast
      qed
    qed
  qed
  with assms(2) show ?thesis by blast
qed



lemma draw_until_Inr:
  assumes "draw_until rng L n brk k = Some (Inr (xs, k'))" and "0 < L"
  shows "length xs = n \<and> (\<forall>i<n. 0 \<le> xs ! i \<and> xs ! i < L) \<and> brk xs"
  using draw_until_result [OF assms] round_draws_props [OF assms(2), of rng n] by auto


lemma randint_array_props:
  assumes "randint_array rng k high size' = Inr xs"
  shows "int (length xs) = size' \<and> list_all (\<lambda>x. 0 \<le> x \<and> x < high) xs"
  using assms by (auto simp: randint_array_def list_all_iff split: if_splits)

lemma randint_range:
  assumes "randint rng k low high = Inr x"
  shows "low \<le> x \<and> x < high"
proof -
  from assms have lt: "low < high" and x: "x = low + int (rng k) mod (high - low)"
    by (auto simp: randint_def split: if_splits)
  have "0 \<le> int (rng k) mod (high - low)" "int (rng k) mod (high - low) < high - low"
    using lt by simp_all
  then show ?thesis
    using x by linarith
qed

lemma choice_pair:
  "choice rng k [a, b] = Inr x \<Longrightarrow> x = a \<or> x = b"
  by (auto simp: choice_def nth_Cons' split: if_splits)

lemma init_pointers_cases:
  assumes "init_pointers rng k L task = Some (Inr (a, b))"
  shows "(a = 0 \<and> b = 0)
     \<or> (\<exists>brk xs k'. draw_until rng L 2 brk k = Some (Inr (xs, k')) \<and> a = xs ! 0 \<and> b = xs ! 1)
     \<or> (randint rng k 0 (L - 1) = Inr a \<and> choice rng (k + 1) [a, a + 1] = Inr b)"
  using assms unfolding init_pointers_def
  by (simp split: if_splits option.splits sum.splits prod.splits) blast+

lemma init_pointers_range:
  assumes "init_pointers rng k L task = Some (Inr (a, b))" and "0 < L"
  shows "0 \<le> a \<and> a < L \<and> 0 \<le> b \<and> b < L"
proof -
  have loop: "0 \<le> xs ! 0 \<and> xs ! 0 < L \<and> 0 \<le> xs ! 1 \<and> xs ! 1 < L"
    if "draw_until rng L 2 brk k = Some (Inr (xs, k'))" for brk xs k'
    using draw_until_Inr [OF that assms(2)] by simp
  have comp: "0 \<le> a \<and> a < L \<and> 0 \<le> b \<and> b < L"
    if r: "randint rng k 0 (L - 1) = Inr a" and c: "choice rng (k + 1) [a, a + 1] = Inr b"
    using randint_range [OF r] choice_pair [OF c] by auto
  from init_pointers_cases [OF assms(1)] show ?thesis
    using loop comp assms(2) by blast
qed

lemma reset_env_inv2:
  assumes "reset_env rng task e = Some (Inr e')" and "0 < length_env e"
  shows "inv2 (length_env e) e'"
proof -
  from assms(1) obtain arr a b where
    arr: "randint_array rng 0 10 (length_env e) = Inr arr"
    and ptr: "init_pointers rng (nat (length_env e)) (length_env e) task = Some (Inr (a, b))"
    and e': "e' = e\<lparr>scratchpad_ints := arr, p1_pos := a, p2_pos := b, has_been_reset := True\<rparr>"
    by (auto simp: reset_env_def split: sum.splits option.splits)
  from randint_array_props [OF arr] init_pointers_range [OF ptr assms(2)] show ?thesis
    by (simp add: inv2_def e')
qed


lemma np_swap_length: "np_swap arr a b = Inr arr' \<Longrightarrow> length arr' = length arr"
  by (auto simp: np_swap_def split: sum.splits)

lemma prog_to_func_inv2:
  assumes "prog_to_func h name = Some f" and "f e = Inr e'" and "inv2 L e"
  shows "inv2 L e'"
proof -
  from assms(1) consider
      "f = (\<lambda>self. Inr (stop self))" | "f = (\<lambda>self. Inr (ptr_1_left self))"
    | "f = (\<lambda>self. Inr (ptr_2_left self))" | "f = (\<lambda>self. Inr (ptr_1_right self))"
    | "f = (\<lambda>self. Inr (ptr_2_right self))" | "f = swap"
    by (auto simp: prog_to_func_def split: if_splits)
  then show ?thesis
  proof cases
    case 6
    then show ?thesis
      using assms(2,3) np_swap_length [of "scratchpad_ints e" "p1_pos e" "p2_pos e"]
      by (auto simp: swap_def inv2_def split: sum.splits)
  qed (use assms(2,3) in \<open>auto simp: inv2_def stop_def ptr_1_left_def ptr_2_left_def
           ptr_1_right_def ptr_2_right_def split: if_splits\<close>)
qed

lemma reachable_inv2: "reachable h L e \<Longrightarrow> inv2 L e"
proof (induction rule: reachable.induct)
  case (reachable_init e0 rng task e)
  then have "0 < L" "length_env e0 = L"
    by (auto simp: list_env_init_def split: if_splits)
  with reset_env_inv2 [OF reachable_init(2)] show ?case by simp
next
  case (reachable_reset e rng task e')
  then have "0 < length_env e" "length_env e = L"
    by (auto simp: inv2_def)
  with reset_env_inv2 [OF reachable_reset(2)] show ?case by simp
next
  case (reachable_act e name f pre e')
  then show ?case
    using prog_to_func_inv2 by blast
qed


lemma qs_init_pointers_fixed:
  "qs_init_pointers rng k L ''BUBBLE'' = Some (Inr (0, 0, 0))"
  "qs_init_pointers rng k L ''BUBBLESORT'' = Some (Inr (0, 0, 0))"
  "qs_init_pointers rng k L ''QUICKSORT'' = Some (Inr (0, L - 1, 0))"
  by (simp_all add: qs_init_pointers_def)

lemma qs_init_pointers_partition:
  "task = ''PARTITION'' \<or> task = ''COMPSWAP_PARTITION'' \<Longrightarrow>
   qs_init_pointers rng k L task =
     (case draw_until rng L 1 (\<lambda>xs. \<not> (xs ! 0 = 0)) k of
        None \<Rightarrow> None
      | Some (Inl e) \<Rightarrow> Some (Inl e)
      | Some (Inr (xs, k')) \<Rightarrow>
          (case randint rng k' 0 (xs ! 0) of
             Inl e \<Rightarrow> Some (Inl e)
           | Inr init_pointers_pos1 \<Rightarrow>
               Some (Inr (init_pointers_pos1, xs ! 0, init_pointers_pos1))))"
  by (auto simp: qs_init_pointers_def)

lemma qs_init_pointers_left:
  "task = ''RESET'' \<or> task = ''LSHIFT'' \<Longrightarrow>
   qs_init_pointers rng k L task =
     (case draw_until rng L 3 (\<lambda>xs. \<not> (xs ! 0 = 0 \<and> xs ! 1 = 0 \<and> xs ! 2 = 0)) k of
        None \<Rightarrow> None
      | Some (Inl e) \<Rightarrow> Some (Inl e)
      | Some (Inr (xs, k')) \<Rightarrow> Some (Inr (xs ! 0, xs ! 1, xs ! 2)))"
  by (auto simp: qs_init_pointers_def)

lemma qs_init_pointers_rshift:
  "qs_init_pointers rng k L ''RSHIFT'' =
     (case draw_until rng L 3
             (\<lambda>xs. \<not> (xs ! 0 = L - 1 \<and> xs ! 1 = L - 1 \<and> xs ! 2 = L - 1)) k of
        None \<Rightarrow> None
      | Some (Inl e) \<Rightarrow> Some (Inl e)
      | Some (Inr (xs, k')) \<Rightarrow> Some (Inr (xs ! 0, xs ! 1, xs ! 2)))"
  by (simp add: qs_init_pointers_def)

lemma qs_init_pointers_compswap:
  "qs_init_pointers rng k L ''COMPSWAP'' =
     (case randint rng k 0 (L - 1) of
        Inl e \<Rightarrow> Some (Inl e)
      | Inr init_pointers_pos1 \<Rightarrow>
          (case choice rng (k + 1) [init_pointers_pos1, init_pointers_pos1 + 1] of
             Inl e \<Rightarrow> Some (Inl e)
           | Inr init_pointers_pos2 \<Rightarrow>
               Some (Inr (init_pointers_pos1, init_pointers_pos2, 0))))"
  by (simp add: qs_init_pointers_def)

lemma qs_init_pointers_other:
  "task \<notin> set qs_sampled_tasks \<Longrightarrow>
   qs_init_pointers rng k L task = Some (Inl NotImplementedError)"
  by (simp add: qs_init_pointers_def qs_sampled_tasks_def)

lemma qs_sampled_tasks_cases:
  assumes "task \<in> set qs_sampled_tasks"
  obtains "task = ''BUBBLE''" | "task = ''BUBBLESORT''" | "task = ''QUICKSORT''"
    | "task = ''PARTITION'' \<or> task = ''COMPSWAP_PARTITION''"
    | "task = ''RESET'' \<or> task = ''LSHIFT''" | "task = ''RSHIFT''" | "task = ''COMPSWAP''"
proof -
  from assms have "task = ''BUBBLE'' \<or> task = ''BUBBLESORT'' \<or> task = ''PARTITION''
      \<or> task = ''COMPSWAP_PARTITION'' \<or> task = ''QUICKSORT'' \<or> task = ''RESET''
      \<or> task = ''LSHIFT'' \<or> task = ''RSHIFT'' \<or> task = ''COMPSWAP''"
    by (simp add: qs_sampled_tasks_def)
  then show thesis
    using that by (elim disjE) simp_all
qed

lemma qs_init_pointers_range:
  assumes "qs_init_pointers rng k L task = Some (Inr (a, b, c))" and "0 < L"
  shows "0 \<le> a \<and> a < L \<and> 0 \<le> b \<and> b < L \<and> 0 \<le> c \<and> c < L"
proof (cases "task \<in> set qs_sampled_tasks")
  case False
  then show ?thesis
    using assms(1) by (simp add: qs_init_pointers_other)
next
  case True
  then show ?thesis
  proof (cases rule: qs_sampled_tasks_cases)
    case 1
    then show ?thesis using assms by (simp add: qs_init_pointers_fixed)
  next
    case 2
    then show ?thesis using assms by (simp add: qs_init_pointers_fixed)
  next
    case 3
    then show ?thesis using assms by (simp add: qs_init_pointers_fixed)
  next
    case 4
    from assms(1) obtain xs k' where
      d: "draw_until rng L 1 (\<lambda>xs. \<not> (xs ! 0 = 0)) k = Some (Inr (xs, k'))"
      and r: "randint rng k' 0 (xs ! 0) = Inr a" and bc: "b = xs ! 0" "c = a"
      unfolding qs_init_pointers_partition [OF 4]
      by (auto split: option.splits sum.splits)
    from draw_until_Inr [OF d assms(2)] randint_range [OF r] bc show ?thesis
      by auto
  next
    case 5
    from assms(1) obtain xs k' where
      d: "draw_until rng L 3 (\<lambda>xs. \<not> (xs ! 0 = 0 \<and> xs ! 1 = 0 \<and> xs ! 2 = 0)) k
            = Some (Inr (xs, k'))"
      and abc: "a = xs ! 0" "b = xs ! 1" "c = xs ! 2"
      unfolding qs_init_pointers_left [OF 5]
      by (auto split: option.splits sum.splits)
    from draw_until_Inr [OF d assms(2)] abc show ?thesis
      by simp
  next
    case 6
    from assms(1) obtain xs k' where
      d: "draw_until rng L 3 (\<lambda>xs. \<not> (xs ! 0 = L - 1 \<and> xs ! 1 = L - 1 \<and> xs ! 2 = L - 1)) k
            = Some (Inr (xs, k'))"
      and abc: "a = xs ! 0" "b = xs ! 1" "c = xs ! 2"
      unfolding 6 qs_init_pointers_rshift
      by (auto split: option.splits sum.splits)
    from draw_until_Inr [OF d assms(2)] abc show ?thesis
      by simp
  next
    case 7
    from assms(1) have r: "randint rng k 0 (L - 1) = Inr a"
      and ch: "choice rng (k + 1) [a, a + 1] = Inr b" and c: "c = 0"
      unfolding 7 qs_init_pointers_compswap
      by (auto split: sum.splits)
    from randint_range [OF r] choice_pair [OF ch] c assms(2) show ?thesis
      by auto
  qed
qed

lemma qs_reset_env_inv3:
  assumes "qs_reset_env rng task e = Some (Inr e')" and "0 < length_env e"
  shows "inv3 (length_env e) e'"
proof -
  from assms(1) obtain arr st a b c where
    arr: "randint_array rng 0 10 (length_env e) = Inr arr"
    and st: "randint_array rng (nat (length_env e)) (length_env e - 1)
               (3 * (length_env e mod 2)) = Inr st"
    and ptr: "qs_init_pointers rng (nat (length_env e) + length st) (length_env e) task
               = Some (Inr (a, b, c))"
    and e': "e' = e\<lparr>scratchpad_ints := arr, p1_pos := a, p2_pos := b, has_been_reset := True,
                     p3_pos := c, prog_stack := st\<rparr>"
    by (auto simp: qs_reset_env_def split: sum.splits option.splits)
  from randint_array_props [OF st]
  have len: "int (length st) = 3 * (length_env e mod 2)"
    and els: "list_all (\<lambda>x. 0 \<le> x \<and> x < length_env e - 1) st"
    by simp_all
  from len have "length st mod 3 = 0"
    by presburger
  moreover from els have "list_all (\<lambda>x. 0 \<le> x \<and> x < length_env e) st"
    by (auto simp: list_all_iff)
  ultimately show ?thesis
    using randint_array_props [OF arr] qs_init_pointers_range [OF ptr assms(2)]
    by (simp add: inv3_def inv2_def e')
qed

lemma push_inv3:
  assumes "push e = Inr e'" and "inv3 L e"
  shows "inv3 L e'"
proof -
  define X where "X = (if p3_pos e + 1 < p2_pos e
         then [p3_pos e + 1, p2_pos e, p3_pos e + 1] else [])"
  define Y where "Y = (if p3_pos e - 1 > 0
         then [p1_pos e, p3_pos e - 1, p1_pos e] else [])"
  have ps: "push e = Inr (e\<lparr>prog_stack := prog_stack e @ X @ Y\<rparr>)"
    unfolding X_def Y_def by (rule push_stack)
  from assms(1) ps have "(Inr e' :: error + quicksort_list_env)
                  = Inr (e\<lparr>prog_stack := prog_stack e @ X @ Y\<rparr>)"
    by (rule trans [OF sym])
  then have e': "e' = e\<lparr>prog_stack := prog_stack e @ X @ Y\<rparr>"
    by (simp only: sum.inject)
  have X: "length X mod 3 = 0 \<and> list_all (\<lambda>x. 0 \<le> x \<and> x < L) X"
    using assms(2) by (simp add: X_def inv3_def inv2_def)
  have Y: "length Y mod 3 = 0 \<and> list_all (\<lambda>x. 0 \<le> x \<and> x < L) Y"
    using assms(2) by (simp add: Y_def inv3_def inv2_def)
  have "length X mod 3 = 0" "length Y mod 3 = 0" "length (prog_stack e) mod 3 = 0"
    using X Y assms(2) by (simp_all add: inv3_def)
  then have "(length (prog_stack e) + (length X + length Y)) mod 3 = 0"
    by presburger
  then show ?thesis
    using assms(2) X Y by (simp add: inv3_def inv2_def e')
qed

lemma pop_inv3:
  assumes "pop e = Inr e'" and "inv3 L e"
  shows "inv3 L e'"
proof (cases "3 \<le> length (prog_stack e)")
  case True
  let ?st = "prog_stack e"
  let ?n = "length ?st"
  have sp: "?st = take (?n - 3) ?st @ [?st ! (?n - 3), ?st ! (?n - 2), ?st ! (?n - 1)]"
    using True by (rule split_last3)
  have e': "e' = e\<lparr>p1_pos := ?st ! (?n - 1), p2_pos := ?st ! (?n - 2),
                    p3_pos := ?st ! (?n - 3), prog_stack := take (?n - 3) ?st\<rparr>"
    using pop_snoc3 [OF sp] assms(1) by simp
  have all: "list_all (\<lambda>x. 0 \<le> x \<and> x < L) ?st"
    using assms(2) by (simp add: inv3_def)
  then have nth: "\<And>i. i < ?n \<Longrightarrow> 0 \<le> ?st ! i \<and> ?st ! i < L"
    by (simp add: list_all_length)
  have tk: "list_all (\<lambda>x. 0 \<le> x \<and> x < L) (take (?n - 3) ?st)"
    using all by (auto simp: list_all_iff dest: in_set_takeD)
  have "length ?st mod 3 = 0"
    using assms(2) by (simp add: inv3_def)
  then have md: "(?n - 3) mod 3 = 0"
    using True by presburger
  show ?thesis
    using assms(2) True nth [of "?n - 1"] nth [of "?n - 2"] nth [of "?n - 3"] tk md
    by (simp add: inv3_def inv2_def e' min_def)
next
  case False
  then show ?thesis
    using assms by (simp add: pop_def)
qed


lemma qs_prog_to_func_inv3:
  assumes "qs_prog_to_func h name = Some f" and "f e = Inr e'" and "inv3 L e"
  shows "inv3 L e'"
proof -
  from assms(1) consider
      "f = (\<lambda>self. Inr (stop self))" | "f = (\<lambda>self. Inr (ptr_1_left self))"
    | "f = (\<lambda>self. Inr (ptr_2_left self))" | "f = (\<lambda>self. Inr (ptr_1_right self))"
    | "f = (\<lambda>self. Inr (ptr_2_right self))" | "f = (\<lambda>self. Inr (ptr_3_left self))"
    | "f = (\<lambda>self. Inr (ptr_3_right self))" | "f = push" | "f = pop"
    | "f = swap" | "f = swap_2" | "f = swap_3"
    by (cases h) (auto simp: qs_prog_to_func_def split: if_splits)
  then show ?thesis
  proof cases
    case 8
    then show ?thesis using assms(2,3) push_inv3 by blast
  next
    case 9
    then show ?thesis using assms(2,3) pop_inv3 by blast
  next
    case 10
    then show ?thesis
      using assms(2,3) np_swap_length [of "scratchpad_ints e" "p1_pos e" "p2_pos e"]
      by (auto simp: swap_def inv3_def inv2_def split: sum.splits)
  next
    case 11
    then show ?thesis
      using assms(2,3) np_swap_length [of "scratchpad_ints e" "p2_pos e" "p3_pos e"]
      by (auto simp: swap_2_def inv3_def inv2_def split: sum.splits)
  next
    case 12
    then show ?thesis
      using assms(2,3) np_swap_length [of "scratchpad_ints e" "p3_pos e" "p1_pos e"]
      by (auto simp: swap_3_def inv3_def inv2_def split: sum.splits)
  qed (use assms(2,3) in \<open>auto simp: inv3_def inv2_def stop_def ptr_1_left_def ptr_2_left_def
           ptr_1_right_def ptr_2_right_def ptr_3_left_def ptr_3_right_def split: if_splits\<close>)
qed

lemma qs_reachable_inv3: "qs_reachable h L e \<Longrightarrow> inv3 L e"
proof (induction rule: qs_reachable.induct)
  case (qs_reachable_init e0 rng task e)
  then have "0 < L" "length_env e0 = L"
    by (auto simp: quicksort_list_env_init_def split: if_splits)
  with qs_reset_env_inv3 [OF qs_reachable_init(2)] show ?case by simp
next
  case (qs_reachable_reset e rng task e')
  then have "0 < length_env e" "length_env e = L"
    by (auto simp: inv3_def inv2_def)
  with qs_reset_env_inv3 [OF qs_reachable_reset(2)] show ?case by simp
next
  case (qs_reachable_act e name f pre e')
  then show ?case
    using qs_prog_to_func_inv3 by blast
qed


text \<open>
  C7. In both classes, every state reached by a \<^verbatim>\<open>reset_env\<close> that returned, followed
  by any sequence of primitives each run when its precondition held (and by further
  resets), has the length L of the construction, a scratchpad of length L and every
  pointer in [0, L-1]; in QuickSortListEnv the length of the stack is a multiple of 3,
  and every element of the stack lies in [0, L-1] as well, which is what keeps the
  pointers in range across POP.
\<close>

theorem reachable_invariant:
  "(reachable h L e \<longrightarrow>
      length_env e = L \<and> int (length (scratchpad_ints e)) = L
      \<and> 0 \<le> p1_pos e \<and> p1_pos e \<le> L - 1 \<and> 0 \<le> p2_pos e \<and> p2_pos e \<le> L - 1)
   \<and> (qs_reachable h L q \<longrightarrow>
      length_env q = L \<and> int (length (scratchpad_ints q)) = L
      \<and> 0 \<le> p1_pos q \<and> p1_pos q \<le> L - 1 \<and> 0 \<le> p2_pos q \<and> p2_pos q \<le> L - 1
      \<and> 0 \<le> p3_pos q \<and> p3_pos q \<le> L - 1
      \<and> length (prog_stack q) mod 3 = 0
      \<and> list_all (\<lambda>x. 0 \<le> x \<and> x \<le> L - 1) (prog_stack q))"
proof (rule conjI; rule impI)
  assume "reachable h L e"
  then have "inv2 L e" by (rule reachable_inv2)
  then show "length_env e = L \<and> int (length (scratchpad_ints e)) = L
      \<and> 0 \<le> p1_pos e \<and> p1_pos e \<le> L - 1 \<and> 0 \<le> p2_pos e \<and> p2_pos e \<le> L - 1"
    by (simp add: inv2_def)
next
  assume "qs_reachable h L q"
  then have i: "inv3 L q" by (rule qs_reachable_inv3)
  then have "list_all (\<lambda>x. 0 \<le> x \<and> x \<le> L - 1) (prog_stack q)"
    by (auto simp: inv3_def list_all_iff)
  with i show "length_env q = L \<and> int (length (scratchpad_ints q)) = L
      \<and> 0 \<le> p1_pos q \<and> p1_pos q \<le> L - 1 \<and> 0 \<le> p2_pos q \<and> p2_pos q \<le> L - 1
      \<and> 0 \<le> p3_pos q \<and> p3_pos q \<le> L - 1
      \<and> length (prog_stack q) mod 3 = 0
      \<and> list_all (\<lambda>x. 0 \<le> x \<and> x \<le> L - 1) (prog_stack q)"
    by (simp add: inv3_def inv2_def)
qed

lemma reachable_example:
  "reachable True 2 \<lparr>length_env = 2, scratchpad_ints = [0, 1], p1_pos = 1, p2_pos = 0,
                       has_been_reset = True\<rparr>"
proof -
  let ?e0 = "\<lparr>length_env = 2, scratchpad_ints = [0, 0], p1_pos = 0, p2_pos = 0,
               has_been_reset = False\<rparr>"
  let ?e1 = "\<lparr>length_env = 2, scratchpad_ints = [0, 1], p1_pos = 0, p2_pos = 0,
               has_been_reset = True\<rparr>"
  have i: "list_env_init 2 True = Inr ?e0"
    by (simp add: list_env_init_def numeral_2_eq_2)
  have r: "reset_env id ''BUBBLESORT'' ?e0 = Some (Inr ?e1)"
    by (simp add: reset_env_def randint_array_def init_pointers_def numeral_2_eq_2)
  have r1: "reachable True 2 ?e1"
    using i r by (rule reachable_init)
  have f: "prog_to_func True ''PTR_1_RIGHT'' = Some (\<lambda>self. Inr (ptr_1_right self))"
    by (simp add: prog_to_func_def)
  have p: "prog_to_precondition True ''PTR_1_RIGHT'' = Some ptr_1_right_precondition"
    by (simp add: prog_to_precondition_def)
  have pre: "ptr_1_right_precondition ?e1"
    by (simp add: ptr_1_right_precondition_def)
  have "reachable True 2 (ptr_1_right ?e1)"
    using r1 f p pre by (rule reachable_act) simp
  then show ?thesis
    by (simp add: ptr_1_right_def)
qed

lemma qs_reachable_example:
  "qs_reachable True 3 \<lparr>length_env = 3, scratchpad_ints = [0, 1, 2], p1_pos = 0, p2_pos = 2,
                       has_been_reset = True, p3_pos = 0, prog_stack = [1, 0, 1]\<rparr>"
proof -
  let ?e0 = "\<lparr>length_env = 3, scratchpad_ints = [0, 0, 0], p1_pos = 0, p2_pos = 0,
               has_been_reset = False, p3_pos = 0, prog_stack = []\<rparr>"
  have i: "quicksort_list_env_init 3 True = Inr ?e0"
    by (simp add: quicksort_list_env_init_def numeral_3_eq_3)
  have a: "randint_array id 0 10 3 = Inr [0, 1, 2]"
    by (simp add: randint_array_def numeral_3_eq_3)
  have st: "randint_array id 3 2 3 = Inr [1, 0, 1]"
    by (simp add: randint_array_def numeral_3_eq_3)
  have r: "qs_reset_env id ''QUICKSORT'' ?e0
             = Some (Inr \<lparr>length_env = 3, scratchpad_ints = [0, 1, 2], p1_pos = 0, p2_pos = 2,
                       has_been_reset = True, p3_pos = 0, prog_stack = [1, 0, 1]\<rparr>)"
    by (simp add: qs_reset_env_def a st qs_init_pointers_fixed)
  show ?thesis
    using i r by (rule qs_reachable_init)
qed

theorem reachable_invariant_witness:
  "reachable True 2 \<lparr>length_env = 2, scratchpad_ints = [0, 1], p1_pos = 1, p2_pos = 0,
                       has_been_reset = True\<rparr>
   \<and> qs_reachable True 3 \<lparr>length_env = 3, scratchpad_ints = [0, 1, 2], p1_pos = 0, p2_pos = 2,
                       has_been_reset = True, p3_pos = 0, prog_stack = [1, 0, 1]\<rparr>
   \<and> length [1, 0, 1 :: int] mod 3 = 0
   \<and> list_all (\<lambda>x. 0 \<le> x \<and> x \<le> 3 - 1) [1, 0, 1 :: int]"
  using reachable_example qs_reachable_example
    reachable_invariant [of True 2 "\<lparr>length_env = 2, scratchpad_ints = [0, 1], p1_pos = 1,
                       p2_pos = 0, has_been_reset = True\<rparr>"
      "\<lparr>length_env = 2, scratchpad_ints = [0, 1], p1_pos = 0, p2_pos = 1,
                       has_been_reset = True, p3_pos = 0, prog_stack = []\<rparr>"]
    reachable_invariant [of True 3 "\<lparr>length_env = 3, scratchpad_ints = [0, 1, 2], p1_pos = 1,
                       p2_pos = 0, has_been_reset = True\<rparr>"
      "\<lparr>length_env = 3, scratchpad_ints = [0, 1, 2], p1_pos = 0, p2_pos = 2,
                       has_been_reset = True, p3_pos = 0, prog_stack = [1, 0, 1]\<rparr>"]
  by simp

section \<open>Outcome of the task sampler\<close>































end
